(* ===== verification/Prelude.thy ===== *)
theory Prelude
  imports Main "HOL-Library.Word"
begin

text \<open>
  Shared vocabulary of the development: the integer types of \<open>simulator/base.h\<close>, the
  result type of an operation whose C text can run into undefined behaviour, byte-addressed
  memory with little-endian loads and stores, and the generic lemmas about them.

  Conventions used everywhere:
  \<^item> an \<open>int\<close>, \<open>unsigned int\<close>, \<open>short\<close> or \<open>char\<close> object is a word of its
    width; \<open>sint\<close> and \<open>uint\<close> give the two readings. Signed \<open>+ - *\<close> wrap around
    (the simulator is built with gcc and \<open>-O0\<close>);
  \<^item> an access outside the object it is made through, a shift count outside \<open>0..31\<close>,
    a trapping division and a call through an invalid function pointer are values of type
    \<open>fault\<close>; the value an uninitialised variable holds is a parameter.
\<close>

unbundle bit_operations_syntax

named_theorems exec_defs "definitions of the instruction handlers"
named_theorems frame_simps "fields an operation leaves alone"
named_theorems mem_simps "loads over stores"

type_synonym byte = "8 word"
type_synonym u16 = "16 word"
type_synonym u32 = "32 word"
type_synonym u64 = "64 word"

section \<open>Results that may be undefined\<close>

datatype fault =
    MemFault int      \<comment> \<open>guest memory accessed at this offset, outside \<open>[0, size)\<close>\<close>
  | RegFault nat      \<comment> \<open>coprocessor register index past \<open>CPR_COUNT\<close>\<close>
  | ApiFault int      \<comment> \<open>\<open>api_func\<close> indexed here: out of the table or a NULL entry\<close>
  | ThreadFault nat   \<comment> \<open>thread id past \<open>MAX_THREAD\<close>\<close>
  | ShiftFault        \<comment> \<open>shift count outside \<open>0..31\<close>\<close>
  | DivFault          \<comment> \<open>division by zero or \<open>INT_MIN / -1\<close>\<close>
  | IndexFault int    \<comment> \<open>an array of the host indexed here, out of its bounds\<close>
  | NullFault         \<comment> \<open>a null pointer handed to a call that stores through it\<close>
  | UninitFault       \<comment> \<open>a store through an uninitialised pointer\<close>

type_synonym 'a res = "fault + 'a"

fun res_bind :: "'a res \<Rightarrow> ('a \<Rightarrow> 'b res) \<Rightarrow> 'b res" where
  "res_bind (Inl e) f = Inl e"
| "res_bind (Inr x) f = f x"

lemma res_bind_Inr_iff:
  "res_bind r f = Inr y \<longleftrightarrow> (\<exists>x. r = Inr x \<and> f x = Inr y)"
  by (cases r) auto

lemma res_bind_Inl_iff:
  "res_bind r f = Inl e \<longleftrightarrow> r = Inl e \<or> (\<exists>x. r = Inr x \<and> f x = Inl e)"
  by (cases r) auto

lemma res_bind_assoc: "res_bind (res_bind r f) g = res_bind r (\<lambda>x. res_bind (f x) g)"
  by (cases r) auto

text \<open>
  An operation that may also never return: \<open>None\<close>. Not returning, undefined behaviour and a result
  are three different outcomes.
\<close>

definition and_then :: "'a res option \<Rightarrow> ('a \<Rightarrow> 'b res option) \<Rightarrow> 'b res option" where
  "and_then r f = (case r of None \<Rightarrow> None | Some (Inl e) \<Rightarrow> Some (Inl e) | Some (Inr x) \<Rightarrow> f x)"

lemma and_then_simps [simp]:
  "and_then None f = None" "and_then (Some (Inl e)) f = Some (Inl e)" "and_then (Some (Inr x)) f = f x"
  by (simp_all add: and_then_def)

section \<open>Little-endian byte strings\<close>

fun le_val :: "byte list \<Rightarrow> nat" where
  "le_val [] = 0"
| "le_val (b # bs) = unat b + 256 * le_val bs"

primrec le_bytes :: "nat \<Rightarrow> nat \<Rightarrow> byte list" where
  "le_bytes 0 v = []"
| "le_bytes (Suc n) v = of_nat v # le_bytes n (v div 256)"

lemma length_le_bytes [simp]: "length (le_bytes n v) = n"
  by (induction n arbitrary: v) auto

lemma unat_byte_of_nat [simp]: "unat (of_nat v :: byte) = v mod 256"
  by (simp add: unat_of_nat)

lemma unat_byte_less [simp]: "unat (b :: byte) < 256"
proof -
  have "unat b < 2 ^ LENGTH(8)" by (rule unsigned_less)
  then show ?thesis by simp
qed

lemma le_val_less: "le_val bs < 256 ^ length bs"
proof (induction bs)
  case Nil
  then show ?case by simp
next
  case (Cons b bs)
  have "unat b + 256 * le_val bs < 256 * Suc (le_val bs)" by simp
  also have "256 * Suc (le_val bs) \<le> 256 * 256 ^ length bs"
    using Cons by (intro mult_le_mono2) simp
  finally show ?case by simp
qed

lemma le_val_le_bytes [simp]: "le_val (le_bytes n v) = v mod 256 ^ n"
proof (induction n arbitrary: v)
  case 0
  then show ?case by simp
next
  case (Suc n)
  then show ?case by (simp add: mod_mult2_eq add.commute)
qed

lemma le_bytes_le_val [simp]: "length bs = n \<Longrightarrow> le_bytes n (le_val bs) = bs"
proof (induction bs arbitrary: n)
  case Nil
  then show ?case by simp
next
  case (Cons b bs)
  have "(unat b + 256 * le_val bs) div 256 = le_val bs" by simp
  moreover have "(of_nat (unat b + 256 * le_val bs) :: byte) = b"
    by (simp add: word_unat_eq_iff unat_of_nat del: of_nat_add)
  ultimately show ?case using Cons by auto
qed

lemma le_bytes_add: "le_bytes (n + k) v = le_bytes n v @ le_bytes k (v div 256 ^ n)"
  by (induction n arbitrary: v) (simp_all add: div_mult2_eq)

lemma le_bytes_mod [simp]: "le_bytes n (v mod 256 ^ n) = le_bytes n v"
proof -
  have "le_bytes n (le_val (le_bytes n v)) = le_bytes n v" by (rule le_bytes_le_val) simp
  then show ?thesis by simp
qed

text \<open>Records of one width, laid out one after the other.\<close>

lemma take_drop_concat:
  "(\<And>x. length (f x) = k) \<Longrightarrow> i < length xs \<Longrightarrow> take k (drop (k * i) (concat (map f xs))) = f (xs ! i)"
proof (induction xs arbitrary: i)
  case Nil
  then show ?case by simp
next
  case (Cons x xs)
  then show ?case by (cases i) simp_all
qed

lemma length_concat_map:
  "(\<And>x. length (f x) = k) \<Longrightarrow> length (concat (map f xs)) = k * length xs"
  by (induction xs) simp_all

section \<open>Byte-addressed memory\<close>

type_synonym mem = "nat \<Rightarrow> byte"

definition load_bytes :: "mem \<Rightarrow> nat \<Rightarrow> nat \<Rightarrow> byte list" where
  "load_bytes m a n = map m [a..<a + n]"

definition store_bytes :: "mem \<Rightarrow> nat \<Rightarrow> byte list \<Rightarrow> mem" where
  "store_bytes m a bs = (\<lambda>x. if a \<le> x \<and> x < a + length bs then bs ! (x - a) else m x)"

definition load_le :: "mem \<Rightarrow> nat \<Rightarrow> nat \<Rightarrow> nat" where
  "load_le m a n = le_val (load_bytes m a n)"

definition store_le :: "mem \<Rightarrow> nat \<Rightarrow> nat \<Rightarrow> nat \<Rightarrow> mem" where
  "store_le m a n v = store_bytes m a (le_bytes n v)"

lemma length_load_bytes [simp]: "length (load_bytes m a n) = n"
  by (simp add: load_bytes_def)

lemma store_bytes_outside:
  "x < a \<or> a + length bs \<le> x \<Longrightarrow> store_bytes m a bs x = m x"
  by (auto simp: store_bytes_def)

lemma load_store_bytes_same [mem_simps]:
  "n = length bs \<Longrightarrow> load_bytes (store_bytes m a bs) a n = bs"
  by (rule nth_equalityI) (auto simp: load_bytes_def store_bytes_def)

lemma load_bytes_cong:
  "(\<And>x. a \<le> x \<Longrightarrow> x < a + n \<Longrightarrow> m x = m' x) \<Longrightarrow> load_bytes m a n = load_bytes m' a n"
  by (auto simp: load_bytes_def)

lemma load_store_bytes_other [mem_simps]:
  "a + n \<le> b \<or> b + length bs \<le> a \<Longrightarrow>
     load_bytes (store_bytes m b bs) a n = load_bytes m a n"
  by (rule load_bytes_cong) (auto simp: store_bytes_def)

lemma load_store_bytes_part:
  "i + n \<le> length bs \<Longrightarrow> load_bytes (store_bytes m a bs) (a + i) n = take n (drop i bs)"
  by (rule nth_equalityI) (auto simp: load_bytes_def store_bytes_def)

lemma load_store_le_same [mem_simps]: "load_le (store_le m a n v) a n = v mod 256 ^ n"
  by (simp add: load_le_def store_le_def mem_simps)

lemma load_store_le_other [mem_simps]:
  "a + n \<le> b \<or> b + k \<le> a \<Longrightarrow> load_le (store_le m b k v) a n = load_le m a n"
  by (simp add: load_le_def store_le_def mem_simps)

lemma store_le_outside: "x < a \<or> a + n \<le> x \<Longrightarrow> store_le m a n v x = m x"
  by (simp add: store_le_def store_bytes_outside)

lemma load_le_less: "load_le m a n < 256 ^ n"
  using le_val_less [of "load_bytes m a n"] by (simp add: load_le_def)

lemma load_le_cong:
  "(\<And>x. a \<le> x \<Longrightarrow> x < a + n \<Longrightarrow> m x = m' x) \<Longrightarrow> load_le m a n = load_le m' a n"
  unfolding load_le_def by (metis load_bytes_cong)

section \<open>Words\<close>

lemma unat_u32_less [simp]: "unat (x :: u32) < 4294967296"
proof -
  have "unat x < 2 ^ LENGTH(32)" by (rule unsigned_less)
  then show ?thesis by simp
qed

lemma unat_u16_less [simp]: "unat (x :: u16) < 65536"
proof -
  have "unat x < 2 ^ LENGTH(16)" by (rule unsigned_less)
  then show ?thesis by simp
qed

lemma unat_u64_less [simp]: "unat (x :: u64) < 18446744073709551616"
proof -
  have "unat x < 2 ^ LENGTH(64)" by (rule unsigned_less)
  then show ?thesis by simp
qed

lemma sint_small: "unat (w :: u32) < 2147483648 \<Longrightarrow> sint w = int (unat w)"
proof -
  assume "unat w < 2147483648"
  then have "uint w < 2147483648" by (metis of_nat_less_iff of_nat_numeral of_nat_unat)
  moreover have "- 2147483648 \<le> uint w" by (rule order_trans [OF _ uint_ge_0]) simp
  ultimately show ?thesis by (simp add: sint_uint signed_take_bit_int_eq_self_iff)
qed

lemma unat_ucast_small:
  assumes "unat (x :: u64) < 4294967296"
  shows "unat (ucast x :: u32) = unat x"
proof -
  have "unat (ucast x :: u32) = take_bit 32 (unat x)" using unsigned_ucast_eq [where 'c = 32, of x] by simp
  then show ?thesis using assms by (simp add: take_bit_nat_eq_self)
qed

lemma unat_ucast_u64 [simp]: "unat (ucast (x :: u32) :: u64) = unat x"
proof -
  have "unat (ucast x :: u64) = take_bit 64 (unat x)" using unsigned_ucast_eq [where 'c = 64, of x] by simp
  then show ?thesis using unat_u32_less [of x] by (simp add: take_bit_nat_eq_self)
qed

lemma drop_bit_high [simp]: "LENGTH('a) \<le> n \<Longrightarrow> drop_bit n (x :: 'a :: len word) = 0"
  by (rule bit_word_eqI) (auto simp: bit_drop_bit_eq dest: bit_imp_le_length)

end
