(* ===== verification/Rt_Api.thy ===== *)
theory Rt_Api
  imports Prelude
begin

text \<open>
  The inline helpers of the guest run-time library, \<open>rtlib/libs/api.h\<close>: \<open>memcpy\<close> and
  \<open>memset\<close> over byte objects. An object is the list of its bytes and a pointer into it an
  index; an access past the end of an object is the fault \<open>IndexFault\<close> with the index. The two
  objects of \<open>memcpy\<close> are different ones, as in all its calls in \<open>md5.c\<close>: a copy between
  overlapping parts of one object is not represented.
\<close>

section \<open>memcpy\<close>

text \<open>\<open>while (len--) *(dst++) = *(src++);\<close> with \<open>len\<close> an \<open>int\<close>: a negative
  \<open>len\<close> is not zero before an object ends, so the loop runs until it leaves one.\<close>

function memcpy :: "byte list \<Rightarrow> nat \<Rightarrow> byte list \<Rightarrow> nat \<Rightarrow> int \<Rightarrow> byte list res" where
  "memcpy dst d src s len =
     (if len = 0 then Inr dst
      else if length src \<le> s then Inl (IndexFault (int s))
      else if length dst \<le> d then Inl (IndexFault (int d))
      else memcpy (dst[d := src ! s]) (d + 1) src (s + 1) (len - 1))"
  by pat_completeness auto
termination
  by (relation "measure (\<lambda>(dst, d, src, s, len). length src - s)") auto

declare memcpy.simps [simp del]

lemma memcpy_0 [simp]: "memcpy dst d src s 0 = Inr dst"
  by (simp add: memcpy.simps)

lemma memcpy_Suc:
  "d < length dst \<Longrightarrow> s < length src \<Longrightarrow>
     memcpy dst d src s (int (Suc n)) = memcpy (dst[d := src ! s]) (d + 1) src (s + 1) (int n)"
  by (subst memcpy.simps) simp

text \<open>The block that the copy replaces, in one piece.\<close>

definition splice :: "'a list \<Rightarrow> nat \<Rightarrow> 'a list \<Rightarrow> 'a list" where
  "splice dst d xs = take d dst @ xs @ drop (d + length xs) dst"

lemma length_splice [simp]: "d + length xs \<le> length dst \<Longrightarrow> length (splice dst d xs) = length dst"
  by (simp add: splice_def)

lemma splice_Nil [simp]: "splice dst d [] = dst"
  by (simp add: splice_def)

lemma splice_Cons:
  "d < length dst \<Longrightarrow> splice (dst[d := x]) (Suc d) xs = splice dst d (x # xs)"
  by (simp add: splice_def take_Suc_conv_app_nth)

lemma take_splice: "d + length xs \<le> length dst \<Longrightarrow> take (d + length xs) (splice dst d xs) = take d dst @ xs"
  by (simp add: splice_def)

lemma memcpy_splice:
  "d + n \<le> length dst \<Longrightarrow> s + n \<le> length src \<Longrightarrow>
     memcpy dst d src s (int n) = Inr (splice dst d (take n (drop s src)))"
proof (induction n arbitrary: dst d s)
  case 0
  then show ?case by simp
next
  case (Suc n)
  have "take (Suc n) (drop s src) = src ! s # take n (drop (Suc s) src)"
    using Suc.prems by (simp add: Cons_nth_drop_Suc [symmetric])
  moreover have "memcpy dst d src s (int (Suc n)) =
      Inr (splice (dst[d := src ! s]) (Suc d) (take n (drop (Suc s) src)))"
    using Suc.prems Suc.IH [of "Suc d" "dst[d := src ! s]" "Suc s"] by (subst memcpy_Suc) auto
  ultimately show ?case using Suc.prems by (simp add: splice_Cons)
qed

lemma memcpy_negative: "n < 0 \<Longrightarrow> \<exists>i. memcpy dst d src s n = Inl (IndexFault i)"
proof (induction dst d src s n rule: memcpy.induct)
  case (1 dst d src s len)
  then show ?case by (subst memcpy.simps) auto
qed

section \<open>memset\<close>

text \<open>\<open>for (i = 0; i < len; i++) dst[i] = v;\<close>\<close>

function memset_loop :: "byte list \<Rightarrow> nat \<Rightarrow> byte \<Rightarrow> int \<Rightarrow> int \<Rightarrow> byte list res" where
  "memset_loop dst d v len i =
     (if i < len then
        (if d + nat i < length dst then memset_loop (dst[d + nat i := v]) d v len (i + 1)
         else Inl (IndexFault (int (d + nat i))))
      else Inr dst)"
  by pat_completeness auto
termination
  by (relation "measure (\<lambda>(dst, d, v, len, i). nat (len - i))") auto

declare memset_loop.simps [simp del]

definition memset :: "byte list \<Rightarrow> nat \<Rightarrow> byte \<Rightarrow> int \<Rightarrow> byte list res" where
  "memset dst d v len = memset_loop dst d v len 0"

lemma memset_loop_splice:
  "d + i + n \<le> length dst \<Longrightarrow>
     memset_loop dst d v (int (i + n)) (int i) = Inr (splice dst (d + i) (replicate n v))"
proof (induction n arbitrary: dst i)
  case 0
  then show ?case by (subst memset_loop.simps) simp
next
  case (Suc n)
  have "memset_loop (dst[d + i := v]) d v (int (Suc i + n)) (int (Suc i)) =
      Inr (splice (dst[d + i := v]) (d + Suc i) (replicate n v))"
    using Suc.prems by (intro Suc.IH) simp
  with Suc.prems show ?case by (subst memset_loop.simps) (auto simp: splice_Cons add_ac)
qed

lemma memset_nonpos: "len \<le> 0 \<Longrightarrow> memset dst d v len = Inr dst"
  by (simp add: memset_def memset_loop.simps)

text \<open>
  C37: \<open>memcpy\<close> between two objects and \<open>memset\<close>, of \<open>n\<close> bytes that fit them, return, replace exactly
  the \<open>n\<close> bytes at the destination (by the source's bytes, by the fill byte) and leave every
  other byte of the destination as it was.
\<close>

theorem memcpy_memset_correct:
  assumes "d + n \<le> length dst" and "s + n \<le> length src"
  shows "memcpy dst d src s (int n) = Inr (take d dst @ take n (drop s src) @ drop (d + n) dst)
    \<and> memset dst d v (int n) = Inr (take d dst @ replicate n v @ drop (d + n) dst)"
proof
  show "memcpy dst d src s (int n) = Inr (take d dst @ take n (drop s src) @ drop (d + n) dst)"
    using memcpy_splice [OF assms] assms by (simp add: splice_def)
  show "memset dst d v (int n) = Inr (take d dst @ replicate n v @ drop (d + n) dst)"
    using memset_loop_splice [of d 0 n dst v] assms by (simp add: memset_def splice_def)
qed

lemma memcpy_memset_correct_witness:
  "memcpy [1, 2, 3, 4] 1 [7, 8, 9] 0 2 = Inr [1, 7, 8, 4]
   \<and> memset [1, 2, 3, 4] 1 0 2 = Inr [1, 0, 0, 4]"
  using memcpy_memset_correct [of 1 2 "[1, 2, 3, 4]" 0 "[7, 8, 9]" 0]
  by (simp add: numeral_2_eq_2)

end
