(* ===== verification/Md5.thy ===== *)
theory Md5
  imports Rt_Api
begin

text \<open>
  The guest application \<open>vapps/md5.h\<close>, \<open>vapps/md5.c\<close>: the round macros, the block
  transformation with its 64 unrolled lines, the streaming context and the padding. Pointers
  into an object are lists of the bytes from there on. A call that reads past an object is a fault;
  \<open>None\<close> marks a call that never returns.
\<close>

section \<open>The macros of md5.h\<close>

definition F :: "u32 \<Rightarrow> u32 \<Rightarrow> u32 \<Rightarrow> u32" where
  "F x y z = (x AND y) OR (NOT x AND z)"

definition G :: "u32 \<Rightarrow> u32 \<Rightarrow> u32 \<Rightarrow> u32" where
  "G x y z = (x AND z) OR (y AND NOT z)"

definition H :: "u32 \<Rightarrow> u32 \<Rightarrow> u32 \<Rightarrow> u32" where
  "H x y z = x XOR y XOR z"

definition I :: "u32 \<Rightarrow> u32 \<Rightarrow> u32 \<Rightarrow> u32" where
  "I x y z = y XOR (x OR NOT z)"

definition ROTATE_LEFT :: "u32 \<Rightarrow> nat \<Rightarrow> u32" where
  "ROTATE_LEFT x n = push_bit n x OR drop_bit (32 - n) x"

text \<open>Each macro assigns its first argument; the model returns the new value.\<close>

definition FF :: "u32 \<Rightarrow> u32 \<Rightarrow> u32 \<Rightarrow> u32 \<Rightarrow> u32 \<Rightarrow> nat \<Rightarrow> u32 \<Rightarrow> u32" where
  "FF a b c d x s ac =
     (let a = a + (F b c d + x + ac); a = ROTATE_LEFT a s in a + b)"

definition GG :: "u32 \<Rightarrow> u32 \<Rightarrow> u32 \<Rightarrow> u32 \<Rightarrow> u32 \<Rightarrow> nat \<Rightarrow> u32 \<Rightarrow> u32" where
  "GG a b c d x s ac =
     (let a = a + (G b c d + x + ac); a = ROTATE_LEFT a s in a + b)"

definition HH :: "u32 \<Rightarrow> u32 \<Rightarrow> u32 \<Rightarrow> u32 \<Rightarrow> u32 \<Rightarrow> nat \<Rightarrow> u32 \<Rightarrow> u32" where
  "HH a b c d x s ac =
     (let a = a + (H b c d + x + ac); a = ROTATE_LEFT a s in a + b)"

definition II :: "u32 \<Rightarrow> u32 \<Rightarrow> u32 \<Rightarrow> u32 \<Rightarrow> u32 \<Rightarrow> nat \<Rightarrow> u32 \<Rightarrow> u32" where
  "II a b c d x s ac =
     (let a = a + (I b c d + x + ac); a = ROTATE_LEFT a s in a + b)"

section \<open>MD5Encode and MD5Decode\<close>

text \<open>The two loops over \<open>i\<close> and \<open>j\<close>; the output array is the list of what they write.\<close>

function encode_from :: "u32 list \<Rightarrow> nat \<Rightarrow> nat \<Rightarrow> nat \<Rightarrow> byte list" where
  "encode_from input len i j =
     (if j < len then
        ucast (input ! i AND 0xFF) #
        ucast (drop_bit 8 (input ! i) AND 0xFF) #
        ucast (drop_bit 16 (input ! i) AND 0xFF) #
        ucast (drop_bit 24 (input ! i) AND 0xFF) #
        encode_from input len (i + 1) (j + 4)
      else [])"
  by pat_completeness auto
termination
  by (relation "measure (\<lambda>(input, len, i, j). len - j)") auto

declare encode_from.simps [simp del]

definition MD5Encode :: "u32 list \<Rightarrow> nat \<Rightarrow> byte list" where
  "MD5Encode input len = encode_from input len 0 0"

function decode_from :: "byte list \<Rightarrow> nat \<Rightarrow> nat \<Rightarrow> u32 list" where
  "decode_from input len j =
     (if j < len then
        (ucast (input ! j) OR
         push_bit 8 (ucast (input ! (j + 1))) OR
         push_bit 16 (ucast (input ! (j + 2))) OR
         push_bit 24 (ucast (input ! (j + 3)))) #
        decode_from input len (j + 4)
      else [])"
  by pat_completeness auto
termination
  by (relation "measure (\<lambda>(input, len, j). len - j)") auto

declare decode_from.simps [simp del]

definition MD5Decode :: "byte list \<Rightarrow> nat \<Rightarrow> u32 list" where
  "MD5Decode input len = decode_from input len 0"

section \<open>MD5Transform\<close>

type_synonym abcd = "u32 \<times> u32 \<times> u32 \<times> u32"

text \<open>
  One line of the unrolled code assigns one of the four variables:
  \<open>set_d FF x s ac\<close> is the statement \<open>FF(d, a, b, c, x, s, ac)\<close>.
\<close>

type_synonym round_macro = "u32 \<Rightarrow> u32 \<Rightarrow> u32 \<Rightarrow> u32 \<Rightarrow> u32 \<Rightarrow> nat \<Rightarrow> u32 \<Rightarrow> u32"

fun set_a :: "round_macro \<Rightarrow> u32 \<Rightarrow> nat \<Rightarrow> u32 \<Rightarrow> abcd \<Rightarrow> abcd" where
  "set_a M x s ac (a, b, c, d) = (M a b c d x s ac, b, c, d)"

fun set_d :: "round_macro \<Rightarrow> u32 \<Rightarrow> nat \<Rightarrow> u32 \<Rightarrow> abcd \<Rightarrow> abcd" where
  "set_d M x s ac (a, b, c, d) = (a, b, c, M d a b c x s ac)"

fun set_c :: "round_macro \<Rightarrow> u32 \<Rightarrow> nat \<Rightarrow> u32 \<Rightarrow> abcd \<Rightarrow> abcd" where
  "set_c M x s ac (a, b, c, d) = (a, b, M c d a b x s ac, d)"

fun set_b :: "round_macro \<Rightarrow> u32 \<Rightarrow> nat \<Rightarrow> u32 \<Rightarrow> abcd \<Rightarrow> abcd" where
  "set_b M x s ac (a, b, c, d) = (a, M b c d a x s ac, c, d)"

definition round1_lines :: "u32 list \<Rightarrow> (abcd \<Rightarrow> abcd) list" where
  "round1_lines x =
    [set_a FF (x ! 0) 7 0xd76aa478,
     set_d FF (x ! 1) 12 0xe8c7b756,
     set_c FF (x ! 2) 17 0x242070db,
     set_b FF (x ! 3) 22 0xc1bdceee,
     set_a FF (x ! 4) 7 0xf57c0faf,
     set_d FF (x ! 5) 12 0x4787c62a,
     set_c FF (x ! 6) 17 0xa8304613,
     set_b FF (x ! 7) 22 0xfd469501,
     set_a FF (x ! 8) 7 0x698098d8,
     set_d FF (x ! 9) 12 0x8b44f7af,
     set_c FF (x ! 10) 17 0xffff5bb1,
     set_b FF (x ! 11) 22 0x895cd7be,
     set_a FF (x ! 12) 7 0x6b901122,
     set_d FF (x ! 13) 12 0xfd987193,
     set_c FF (x ! 14) 17 0xa679438e,
     set_b FF (x ! 15) 22 0x49b40821]"

definition round2_lines :: "u32 list \<Rightarrow> (abcd \<Rightarrow> abcd) list" where
  "round2_lines x =
    [set_a GG (x ! 1) 5 0xf61e2562,
     set_d GG (x ! 6) 9 0xc040b340,
     set_c GG (x ! 11) 14 0x265e5a51,
     set_b GG (x ! 0) 20 0xe9b6c7aa,
     set_a GG (x ! 5) 5 0xd62f105d,
     set_d GG (x ! 10) 9 0x2441453,
     set_c GG (x ! 15) 14 0xd8a1e681,
     set_b GG (x ! 4) 20 0xe7d3fbc8,
     set_a GG (x ! 9) 5 0x21e1cde6,
     set_d GG (x ! 14) 9 0xc33707d6,
     set_c GG (x ! 3) 14 0xf4d50d87,
     set_b GG (x ! 8) 20 0x455a14ed,
     set_a GG (x ! 13) 5 0xa9e3e905,
     set_d GG (x ! 2) 9 0xfcefa3f8,
     set_c GG (x ! 7) 14 0x676f02d9,
     set_b GG (x ! 12) 20 0x8d2a4c8a]"

definition round3_lines :: "u32 list \<Rightarrow> (abcd \<Rightarrow> abcd) list" where
  "round3_lines x =
    [set_a HH (x ! 5) 4 0xfffa3942,
     set_d HH (x ! 8) 11 0x8771f681,
     set_c HH (x ! 11) 16 0x6d9d6122,
     set_b HH (x ! 14) 23 0xfde5380c,
     set_a HH (x ! 1) 4 0xa4beea44,
     set_d HH (x ! 4) 11 0x4bdecfa9,
     set_c HH (x ! 7) 16 0xf6bb4b60,
     set_b HH (x ! 10) 23 0xbebfbc70,
     set_a HH (x ! 13) 4 0x289b7ec6,
     set_d HH (x ! 0) 11 0xeaa127fa,
     set_c HH (x ! 3) 16 0xd4ef3085,
     set_b HH (x ! 6) 23 0x4881d05,
     set_a HH (x ! 9) 4 0xd9d4d039,
     set_d HH (x ! 12) 11 0xe6db99e5,
     set_c HH (x ! 15) 16 0x1fa27cf8,
     set_b HH (x ! 2) 23 0xc4ac5665]"

definition round4_lines :: "u32 list \<Rightarrow> (abcd \<Rightarrow> abcd) list" where
  "round4_lines x =
    [set_a II (x ! 0) 6 0xf4292244,
     set_d II (x ! 7) 10 0x432aff97,
     set_c II (x ! 14) 15 0xab9423a7,
     set_b II (x ! 5) 21 0xfc93a039,
     set_a II (x ! 12) 6 0x655b59c3,
     set_d II (x ! 3) 10 0x8f0ccc92,
     set_c II (x ! 10) 15 0xffeff47d,
     set_b II (x ! 1) 21 0x85845dd1,
     set_a II (x ! 8) 6 0x6fa87e4f,
     set_d II (x ! 15) 10 0xfe2ce6e0,
     set_c II (x ! 6) 15 0xa3014314,
     set_b II (x ! 13) 21 0x4e0811a1,
     set_a II (x ! 4) 6 0xf7537e82,
     set_d II (x ! 11) 10 0xbd3af235,
     set_c II (x ! 2) 15 0x2ad7d2bb,
     set_b II (x ! 9) 21 0xeb86d391]"

definition MD5Transform :: "abcd \<Rightarrow> byte list \<Rightarrow> abcd" where
  "MD5Transform state block =
     (let x = MD5Decode block 64;
          (s0, s1, s2, s3) = state;
          (a, b, c, d) =
            fold (\<lambda>line vars. line vars)
              (round1_lines x @ round2_lines x @ round3_lines x @ round4_lines x)
              (s0, s1, s2, s3)
      in (s0 + a, s1 + b, s2 + c, s3 + d))"

section \<open>The context\<close>

record md5_ctx =
  count0 :: u32
  count1 :: u32
  state :: abcd
  buffer :: "byte list"

definition PADDING :: "byte list" where
  "PADDING = 0x80 # replicate 63 0"

definition MD5Init :: "md5_ctx \<Rightarrow> md5_ctx" where
  "MD5Init context = context
     \<lparr>count0 := 0, count1 := 0,
      state := (0x67452301, 0xEFCDAB89, 0x98BADCFE, 0x10325476)\<rparr>"

text \<open>\<open>for (i = partlen; i+64 <= inputlen; i+=64) MD5Transform(state, &input[i]);\<close> with
  \<open>i\<close> and \<open>inputlen\<close> unsigned: where \<open>i+64\<close> wraps around the loop starts over. \<open>None\<close>: the loop
  never ends. A block that is not inside the input is a fault, with the index of its start.\<close>

partial_function (option) update_blocks ::
  "abcd \<Rightarrow> byte list \<Rightarrow> u32 \<Rightarrow> u32 \<Rightarrow> (abcd \<times> u32) res option" where
  "update_blocks st input inputlen i =
     (if i + 64 \<le> inputlen then
        (if unat i + 64 \<le> length input then
           update_blocks (MD5Transform st (take 64 (drop (unat i) input))) input inputlen (i + 64)
         else Some (Inl (IndexFault (uint i))))
      else Some (Inr (st, i)))"

declare update_blocks.simps [code]

definition MD5Update :: "md5_ctx \<Rightarrow> byte list \<Rightarrow> u32 \<Rightarrow> md5_ctx res option" where
  "MD5Update context input inputlen =
     (let index = drop_bit 3 (count0 context) AND 0x3F;
          partlen = 64 - index;
          c0 = count0 context + push_bit 3 inputlen;
          c1 = (if c0 < push_bit 3 inputlen then count1 context + 1 else count1 context);
          c1 = c1 + drop_bit 29 inputlen;
          context = context\<lparr>count0 := c0, count1 := c1\<rparr>
      in if partlen \<le> inputlen then
           and_then (Some (memcpy (buffer context) (unat index) input 0 (sint partlen))) (\<lambda>buf.
           and_then (update_blocks (MD5Transform (state context) buf) input inputlen partlen)
             (\<lambda>(st, i).
           and_then (Some (memcpy buf 0 input (unat i) (sint (inputlen - i)))) (\<lambda>buf.
           Some (Inr (context\<lparr>state := st, buffer := buf\<rparr>)))))
         else
           and_then (Some (memcpy (buffer context) (unat index) input 0 (sint inputlen))) (\<lambda>buf.
           Some (Inr (context\<lparr>buffer := buf\<rparr>))))"

definition MD5Final :: "md5_ctx \<Rightarrow> (md5_ctx \<times> byte list) res option" where
  "MD5Final context =
     (let index = drop_bit 3 (count0 context) AND 0x3F;
          padlen = (if index < 56 then 56 - index else 120 - index);
          bits = MD5Encode [count0 context, count1 context] 8
      in and_then (MD5Update context PADDING padlen) (\<lambda>context.
         and_then (MD5Update context bits 8) (\<lambda>context.
         (case state context of (s0, s1, s2, s3) \<Rightarrow>
            Some (Inr (context, MD5Encode [s0, s1, s2, s3] 16))))))"

end
