(* ===== verification/Md5_Correct.thy ===== *)
theory Md5_Correct
  imports Md5_Spec
begin

text \<open>
  The code of \<open>vapps/md5.c\<close> against the reference of \<open>Md5_Spec\<close>: byte order of
  \<open>MD5Encode\<close> and \<open>MD5Decode\<close>, the 64 unrolled lines of \<open>MD5Transform\<close> as the loop of
  the RFC, the representation invariant \<open>md5_rep\<close> of the context that \<open>MD5Update\<close> keeps, and
  the digest that \<open>MD5Final\<close> returns. The contract of the three operations is the locale
  \<open>streaming_hash\<close>; its client lemma says that any split of the input into calls of
  \<open>MD5Update\<close> gives the same digest.
\<close>

section \<open>Bytes and words\<close>

lemma ucast_byte_eq: "(ucast (b :: byte) :: u32) = of_nat (unat b)"
  by simp

lemma and_255_byte: "(ucast (x AND 0xFF :: u32) :: byte) = ucast x"
proof -
  have "x AND 0xFF = take_bit 8 x" by (simp add: take_bit_eq_mask mask_eq_exp_minus_1)
  then show ?thesis by (simp only:) (auto intro!: bit_word_eqI simp: bit_simps)
qed

lemma ucast_drop_bit_byte: "(ucast (drop_bit n x :: u32) :: byte) = of_nat (unat x div 2 ^ n)"
proof -
  have "(ucast (drop_bit n x) :: byte) = of_nat (unat (drop_bit n x))" by simp
  also have "unat (drop_bit n x) = unat x div 2 ^ n" 
    by (rule trans [OF unat_drop_bit_eq]) (simp add: drop_bit_eq_div)
  finally show ?thesis .
qed

lemma le_bytes_4: "le_bytes 4 v = [of_nat v, of_nat (v div 256), of_nat (v div 65536), of_nat (v div 16777216)]"
proof -
  have 4: "4 = Suc (Suc (Suc (Suc 0)))" by simp
  show ?thesis unfolding 4 le_bytes.simps by (simp add: div_mult2_eq [symmetric])
qed

lemma encode_word:
  "[ucast (x AND 0xFF), ucast (drop_bit 8 x AND 0xFF), ucast (drop_bit 16 x AND 0xFF),
    ucast (drop_bit 24 x AND 0xFF)] = le_bytes 4 (unat (x :: u32))"
proof -
  have "(ucast x :: byte) = of_nat (unat x)" by simp
  then show ?thesis
    unfolding and_255_byte ucast_drop_bit_byte
    by (simp add: le_bytes_4 div_mult2_eq [symmetric])
qed

lemma or_disjoint_add:
  "a < 2 ^ k \<Longrightarrow> k + n \<le> 32 \<Longrightarrow>
     (of_nat a :: u32) OR push_bit k (of_nat b) = of_nat (a + 2 ^ k * b)"
proof -
  assume a: "a < 2 ^ k" and "k + n \<le> 32"
  have "(of_nat a :: u32) AND push_bit k (of_nat b) = 0"
  proof (rule bit_word_eqI)
    fix i
    have "\<not> bit a i" if "k \<le> i"
      using a that bit_take_bit_iff [of k a i] by (simp add: take_bit_nat_eq_self)
    then show "bit ((of_nat a :: u32) AND push_bit k (of_nat b)) i = bit (0 :: u32) i"
      by (auto simp: bit_simps)
  qed
  then have "(of_nat a :: u32) OR push_bit k (of_nat b) = of_nat a + push_bit k (of_nat b)"
    by (simp add: disjunctive_add bit_eq_iff bit_simps)
  then show ?thesis by (simp add: push_bit_eq_mult)
qed

lemma decode_word:
  "(ucast b0 OR push_bit 8 (ucast b1) OR push_bit 16 (ucast b2) OR push_bit 24 (ucast b3) :: u32)
     = of_nat (le_val [b0, b1, b2, b3])"
proof -
  have r: "unat b < 256" for b :: byte by simp
  let ?x = "unat b0" and ?y = "unat b1" and ?z = "unat b2" and ?w = "unat b3"
  have 1: "(of_nat ?x :: u32) OR push_bit 8 (of_nat ?y) = of_nat (?x + 2 ^ 8 * ?y)"
    using r by (intro or_disjoint_add [where n = 8]) auto
  have "?x + 256 * ?y < 65536" using r [of b0] r [of b1] by linarith
  then have 2: "(of_nat (?x + 2 ^ 8 * ?y) :: u32) OR push_bit 16 (of_nat ?z)
      = of_nat (?x + 2 ^ 8 * ?y + 2 ^ 16 * ?z)"
    by (intro or_disjoint_add [where n = 8]) auto
  have "?x + 256 * ?y + 65536 * ?z < 16777216"
    using r [of b0] r [of b1] r [of b2] by linarith
  then have 3: "(of_nat (?x + 2 ^ 8 * ?y + 2 ^ 16 * ?z) :: u32) OR push_bit 24 (of_nat ?w)
      = of_nat (?x + 2 ^ 8 * ?y + 2 ^ 16 * ?z + 2 ^ 24 * ?w)"
    by (intro or_disjoint_add [where n = 8]) auto
  show ?thesis
    unfolding ucast_byte_eq or.assoc [symmetric] 1 2 3 by (simp add: algebra_simps)
qed

lemma encode_from_eq:
  "j = 4 * i \<Longrightarrow> i \<le> length ws \<Longrightarrow>
     encode_from ws (4 * length ws) i j = concat (map (\<lambda>w. le_bytes 4 (unat w)) (drop i ws))"
proof (induction "length ws - i" arbitrary: i j)
  case 0
  then show ?case by (simp add: encode_from.simps [of ws])
next
  case (Suc n)
  then have i: "i < length ws" by simp
  have "encode_from ws (4 * length ws) (i + 1) (j + 4)
      = concat (map (\<lambda>w. le_bytes 4 (unat w)) (drop (i + 1) ws))"
    using Suc by (intro Suc.hyps) auto
  with i Suc.prems show ?case
    by (subst encode_from.simps) (simp add: encode_word [symmetric] Cons_nth_drop_Suc [symmetric])
qed

lemma MD5Encode_eq: "n = 4 * length ws \<Longrightarrow> MD5Encode ws n = concat (map (\<lambda>w. le_bytes 4 (unat w)) ws)"
  by (simp add: MD5Encode_def encode_from_eq)

lemma decode_from_eq:
  "4 * k + j \<le> length bs \<Longrightarrow>
     decode_from bs (4 * k + j) j
       = map (\<lambda>i. of_nat (le_val (take 4 (drop (j + 4 * i) bs)))) [0..<k]"
proof (induction k arbitrary: j)
  case 0
  then show ?case by (simp add: decode_from.simps)
next
  case (Suc k)
  have 4: "take 4 (drop j bs) = [bs ! j, bs ! (j + 1), bs ! (j + 2), bs ! (j + 3)]"
    using Suc.prems by (intro nth_equalityI) (auto simp: nth_Cons numeral_eq_Suc split: nat.splits)
  have "decode_from bs (4 * k + (j + 4)) (j + 4)
      = map (\<lambda>i. of_nat (le_val (take 4 (drop (j + 4 + 4 * i) bs)))) [0..<k]"
    using Suc.prems by (intro Suc.IH) simp
  moreover have "[0..<Suc k] = 0 # map Suc [0..<k]" by (simp add: upt_conv_Cons map_Suc_upt)
  ultimately show ?case
    by (subst decode_from.simps) (simp add: 4 decode_word add_ac del: le_val.simps upt_Suc)
qed

lemma MD5Decode_eq: "length block = 64 \<Longrightarrow> MD5Decode block 64 = le_words block"
  using decode_from_eq [of 16 0 block] by (simp add: MD5Decode_def le_words_def)

section \<open>The unrolled transformation is the loop\<close>

lemma ROTATE_LEFT_eq:
  assumes "0 < n" and "n < 32"
  shows "ROTATE_LEFT x n = word_rotl n x"
proof (rule bit_word_eqI)
  fix i
  assume i: "i < LENGTH(32)"
  have rot: "bit (word_rotl n x) i = bit x ((i + (32 - n)) mod 32)"
    using i assms by (simp add: bit_word_rotl_iff)
  show "bit (ROTATE_LEFT x n) i = bit (word_rotl n x) i"
  proof (cases "n \<le> i")
    case True
    then have "(i + (32 - n)) mod 32 = i - n" and "\<not> bit x (32 - n + i)"
      using i assms by (auto simp: mod_if dest: bit_imp_le_length)
    with True i show ?thesis unfolding rot by (simp add: ROTATE_LEFT_def bit_simps)
  next
    case False
    then have "i + (32 - n) = 32 - n + i" and "32 - n + i < 32" using assms by auto
    then have "(i + (32 - n)) mod 32 = 32 - n + i" by simp
    note rot' = rot [unfolded this]
    from False i show ?thesis unfolding rot' by (simp add: ROTATE_LEFT_def bit_simps)
  qed
qed

lemma F_eq: "F b c d = d XOR (b AND (c XOR d))"
  by (rule bit_word_eqI) (auto simp: F_def bit_simps)

lemma G_eq: "G b c d = c XOR (d AND (b XOR c))"
  by (rule bit_word_eqI) (auto simp: G_def bit_simps)

text \<open>A step with the roles of the four variables rotated, and four of them at a time.\<close>

fun turn :: "round_macro \<Rightarrow> u32 \<Rightarrow> nat \<Rightarrow> u32 \<Rightarrow> abcd \<Rightarrow> abcd" where
  "turn M x s ac (a, b, c, d) = (d, M a b c d x s ac, b, c)"

lemma four_lines:
  "set_b M x3 s3 k3 (set_c M x2 s2 k2 (set_d M x1 s1 k1 (set_a M x0 s0 k0 st)))
     = turn M x3 s3 k3 (turn M x2 s2 k2 (turn M x1 s1 k1 (turn M x0 s0 k0 st)))"
  by (cases st) simp

lemma md5_step_turn:
  "i < 16 \<Longrightarrow> md5_step x i st = turn FF (x ! md5_index i) (md5_shift i) (md5_K ! i) st"
  "16 \<le> i \<Longrightarrow> i < 32 \<Longrightarrow> md5_step x i st = turn GG (x ! md5_index i) (md5_shift i) (md5_K ! i) st"
  "32 \<le> i \<Longrightarrow> i < 48 \<Longrightarrow> md5_step x i st = turn HH (x ! md5_index i) (md5_shift i) (md5_K ! i) st"
  "48 \<le> i \<Longrightarrow> i < 64 \<Longrightarrow> md5_step x i st = turn II (x ! md5_index i) (md5_shift i) (md5_K ! i) st"
proof -
  have s: "0 < md5_shift i \<and> md5_shift i < 32" if "i < 64"
  proof -
    have "i div 16 \<in> {0, 1, 2, 3}" and "i mod 4 \<in> {0, 1, 2, 3}" using that by auto
    then show ?thesis by (auto simp: md5_shift_def)
  qed
  show "i < 16 \<Longrightarrow> md5_step x i st = turn FF (x ! md5_index i) (md5_shift i) (md5_K ! i) st"
    using s by (cases st) (simp add: FF_def F_eq md5_mix_def ROTATE_LEFT_eq add_ac)
  show "16 \<le> i \<Longrightarrow> i < 32 \<Longrightarrow> md5_step x i st = turn GG (x ! md5_index i) (md5_shift i) (md5_K ! i) st"
    using s by (cases st) (simp add: GG_def G_eq md5_mix_def ROTATE_LEFT_eq add_ac)
  show "32 \<le> i \<Longrightarrow> i < 48 \<Longrightarrow> md5_step x i st = turn HH (x ! md5_index i) (md5_shift i) (md5_K ! i) st"
    using s by (cases st) (simp add: HH_def H_def md5_mix_def ROTATE_LEFT_eq add_ac)
  show "48 \<le> i \<Longrightarrow> i < 64 \<Longrightarrow> md5_step x i st = turn II (x ! md5_index i) (md5_shift i) (md5_K ! i) st"
    using s by (cases st) (simp add: II_def I_def md5_mix_def ROTATE_LEFT_eq add_ac)
qed

lemmas md5_tables = md5_K_def md5_shift_def md5_index_def

lemma upt_16: "[0..<16] = [0, 1, 2, 3, 4, 5, 6, 7, 8, 9, 10, 11, 12, 13, 14, 15 :: nat]"
  by (simp add: upt_rec)

lemma round1_steps: "fold (\<lambda>l v. l v) (round1_lines x) st = fold (md5_step x) [0..<16] st"
  by (simp add: round1_lines_def four_lines upt_16 md5_step_turn md5_tables)

lemma round2_steps: "fold (\<lambda>l v. l v) (round2_lines x) st = fold (md5_step x) [16..<32] st"
  by (simp add: round2_lines_def four_lines upt_rec md5_step_turn md5_tables)

lemma round3_steps: "fold (\<lambda>l v. l v) (round3_lines x) st = fold (md5_step x) [32..<48] st"
  by (simp add: round3_lines_def four_lines upt_rec md5_step_turn md5_tables)

lemma round4_steps: "fold (\<lambda>l v. l v) (round4_lines x) st = fold (md5_step x) [48..<64] st"
  by (simp add: round4_lines_def four_lines upt_rec md5_step_turn md5_tables)

lemma all_rounds_steps:
  "fold (\<lambda>l v. l v) (round1_lines x @ round2_lines x @ round3_lines x @ round4_lines x) st
     = fold (md5_step x) [0..<64] st"
proof -
  have "[0..<64] = [0..<16] @ [16..<32] @ [32..<48] @ [48..<(64::nat)]"
    using upt_add_eq_append [of 0 16 48] upt_add_eq_append [of 16 32 32]
      upt_add_eq_append [of 32 48 16] by simp
  then show ?thesis
    by (simp only: fold_append comp_apply round1_steps round2_steps round3_steps round4_steps)
qed

lemma MD5Transform_compress: "length block = 64 \<Longrightarrow> MD5Transform st block = md5_compress st block"
  by (cases st)
    (simp add: MD5Transform_def md5_compress_def MD5Decode_eq all_rounds_steps del: fold_append
      split: prod.split)

section \<open>The streaming context\<close>

text \<open>
  The context after the bytes \<open>m\<close>: the bit count, the state after every whole block, and the
  bytes of the last partial block at the front of the buffer.
\<close>

definition md5_rep :: "md5_ctx \<Rightarrow> byte list \<Rightarrow> bool" where
  "md5_rep ctx m \<longleftrightarrow>
     length (buffer ctx) = 64 \<and>
     count0 ctx = of_nat (8 * length m) \<and>
     count1 ctx = of_nat (8 * length m div 4294967296) \<and>
     state ctx = absorb MD5Transform md5_iv m \<and>
     take (length m mod 64) (buffer ctx) = partial_block m"

lemma MD5Init_rep: "length (buffer c) = 64 \<Longrightarrow> md5_rep (MD5Init c) []"
  by (simp add: md5_rep_def MD5Init_def md5_iv_def partial_block_def)

lemma index_eq:
  assumes "count0 ctx = of_nat (8 * n)"
  shows "unat (drop_bit 3 (count0 ctx) AND 0x3F) = n mod 64"
proof -
  have "drop_bit 3 (count0 ctx) AND 0x3F = take_bit 6 (drop_bit 3 (count0 ctx))"
    by (simp add: take_bit_eq_mask mask_eq_exp_minus_1)
  then have "unat (drop_bit 3 (count0 ctx) AND 0x3F) = take_bit 6 (drop_bit 3 (unat (count0 ctx)))"
    by (simp only: unsigned_take_bit_eq unat_drop_bit_eq)
  also have "unat (count0 ctx) = 8 * n mod 4294967296"
    unfolding assms unat_of_nat by simp
  also have "take_bit 6 (drop_bit 3 (8 * n mod 4294967296)) = 8 * n mod 4294967296 div 8 mod 64"
    by (simp add: take_bit_eq_mod drop_bit_eq_div)
  also have "\<dots> = n mod 64"
  proof -
    have "(8 * n) mod (8 * 536870912) = 8 * (n mod 536870912)" by (rule mult_mod_right [symmetric])
    then show ?thesis by (simp add: mod_mod_cancel)
  qed
  finally show ?thesis .
qed

lemma update_blocks_eq:
  assumes "n + 64 < 4294967296" and "unat inputlen = n" and "n \<le> length input" and "unat i \<le> n"
  shows "\<exists>i'. update_blocks st input inputlen i
      = Some (Inr (absorb MD5Transform st (take (n - unat i) (drop (unat i) input)), i'))
    \<and> unat i' = unat i + 64 * ((n - unat i) div 64)"
  using assms(4)
proof (induction "n - unat i" arbitrary: st i rule: less_induct)
  case less
  have i64: "unat (i + 64) = unat i + 64"
    using less.prems assms(1) by (simp add: unat_word_ariths)
  let ?rest = "take (n - unat i) (drop (unat i) input)"
  show ?case
  proof (cases "unat i + 64 \<le> n")
    case True
    then have le: "i + 64 \<le> inputlen" using i64 assms(2) by (simp add: word_le_nat_alt)
    let ?st = "MD5Transform st (take 64 (drop (unat i) input))"
    have dec: "n - (unat i + 64) < n - unat i" using True by arith
    obtain i' where i': "update_blocks ?st input inputlen (i + 64)
        = Some (Inr (absorb MD5Transform ?st (take (n - (unat i + 64)) (drop (unat i + 64) input)), i'))"
      and u: "unat i' = unat i + 64 + 64 * ((n - (unat i + 64)) div 64)"
      using less.hyps [of "i + 64" ?st, unfolded i64] True dec by auto
    have div: "(n - unat i) div 64 = Suc ((n - (unat i + 64)) div 64)"
      using True by (simp add: div_if)
    have "absorb MD5Transform st ?rest
        = absorb MD5Transform ?st (take (n - (unat i + 64)) (drop (unat i + 64) input))"
      using True assms(3) by (subst absorb_block) (auto simp: drop_take min_def add.commute)
    then show ?thesis
      using le True assms(3) i' u div by (subst update_blocks.simps) auto
  next
    case False
    then have "\<not> i + 64 \<le> inputlen" using i64 assms(2) by (simp add: word_le_nat_alt)
    moreover have "length ?rest < 64" and "(n - unat i) div 64 = 0"
      using False less.prems assms(3) by auto
    ultimately show ?thesis by (subst update_blocks.simps) simp
  qed
qed

lemma mod_sum_less:
  assumes "x < m" and "y < (m :: nat)"
  shows "(x + y) mod m < y \<longleftrightarrow> m \<le> x + y"
proof (cases "m \<le> x + y")
  case True
  then have "(x + y) mod m = x + y - m" using assms by (simp add: le_mod_geq)
  with True assms show ?thesis by simp
next
  case False
  then show ?thesis by simp
qed

lemma div_sum:
  assumes "x < m" and "y < (m :: nat)"
  shows "(x + y) div m = (if m \<le> x + y then 1 else 0)"
  using assms by (auto simp: div_if)

lemma count_carry:
  assumes "c0 = of_nat (8 * l)" and "c1 = of_nat (8 * l div 4294967296)" and "unat n = k"
  shows "c0 + push_bit 3 n = of_nat (8 * (l + k))"
    and "(if c0 + push_bit 3 n < push_bit 3 n then c1 + 1 else c1) + drop_bit 29 n
      = (of_nat (8 * (l + k) div 4294967296) :: u32)"
proof -
  have n: "n = of_nat k" using assms(3) by (metis of_nat_unat ucast_id)
  have p: "push_bit 3 n = of_nat (8 * k)" by (simp add: n push_bit_eq_mult)
  show sum: "c0 + push_bit 3 n = of_nat (8 * (l + k))" by (simp add: assms(1) p algebra_simps)
  have d: "drop_bit 29 n = of_nat (8 * k div 4294967296)"
  proof -
    have "unat (drop_bit 29 n) = k div 536870912"
      by (rule trans [OF unat_drop_bit_eq]) (simp add: drop_bit_eq_div assms(3))
    moreover have "8 * k div 4294967296 = k div 536870912"
      using div_mult_mult1 [of 8 k 536870912] by simp
    ultimately show ?thesis by (metis of_nat_unat ucast_id)
  qed
  have two32: "2 ^ LENGTH(32) = (4294967296 :: nat)" by simp
  let ?a = "8 * l" and ?b = "8 * k" and ?m = "4294967296 :: nat"
  have carry: "c0 + push_bit 3 n < push_bit 3 n \<longleftrightarrow> ?m \<le> ?a mod ?m + ?b mod ?m"
  proof -
    have "unat (c0 + push_bit 3 n) = (?a + ?b) mod ?m"
      unfolding sum unat_of_nat two32 add_mult_distrib2 by (rule refl)
    moreover have "unat (push_bit 3 n) = ?b mod ?m" unfolding p unat_of_nat two32 by (rule refl)
    moreover have "(?a + ?b) mod ?m < ?b mod ?m \<longleftrightarrow> ?m \<le> ?a mod ?m + ?b mod ?m"
      using mod_sum_less [of "?a mod ?m" ?m "?b mod ?m"] unfolding mod_add_eq by simp
    ultimately show ?thesis by (simp add: word_less_nat_alt)
  qed
  have "(?a + ?b) div ?m = ?a div ?m + ?b div ?m + (?a mod ?m + ?b mod ?m) div ?m"
    by (rule div_add1_eq)
  moreover have "(?a mod ?m + ?b mod ?m) div ?m = (if ?m \<le> ?a mod ?m + ?b mod ?m then 1 else 0)"
    by (rule div_sum) simp_all
  ultimately show "(if c0 + push_bit 3 n < push_bit 3 n then c1 + 1 else c1) + drop_bit 29 n
      = (of_nat (8 * (l + k) div 4294967296) :: u32)"
    unfolding d carry assms(2) by (simp add: distrib_left)
qed

lemma partial_block_short [simp]: "length bs < 64 \<Longrightarrow> partial_block bs = bs"
  by (simp add: partial_block_def)

lemma length_partial_append_mod:
  "length (partial_block (xs @ ys)) = (length xs mod 64 + length ys) mod 64"
  by (simp add: mod_add_left_eq)

text \<open>The whole-block branch of \<open>MD5Update\<close>, on the abstract side.\<close>

lemma absorb_fill:
  assumes t: "t = length m mod 64" and k: "64 - t \<le> k" "k \<le> length input"
    and buf: "buf = partial_block m @ take (64 - t) input"
  shows "absorb f (f (absorb f iv m) buf) (take (k - (64 - t)) (drop (64 - t) input))
      = absorb f iv (m @ take k input)"
    and "partial_block (m @ take k input)
      = drop (64 - t + 64 * ((k - (64 - t)) div 64)) (take k input)"
proof -
  let ?y = "partial_block m @ take k input"
  have lt: "t < 64" and len: "length (partial_block m) = t" using t by simp_all
  have ge: "64 \<le> length ?y" using k lt len by simp
  have tk: "take 64 ?y = buf" using k lt len buf by (simp add: min_def)
  have dr: "drop 64 ?y = take (k - (64 - t)) (drop (64 - t) input)"
    using k lt len by (simp add: drop_take)
  show "absorb f (f (absorb f iv m) buf) (take (k - (64 - t)) (drop (64 - t) input))
      = absorb f iv (m @ take k input)"
    unfolding absorb_append [of f iv m] absorb_block [OF ge] tk dr ..
  have "length ?y div 64 = Suc ((k - (64 - t)) div 64)"
  proof -
    have "length ?y = 64 + (k - (64 - t))" using k lt len by simp
    then show ?thesis by simp
  qed
  then show "partial_block (m @ take k input)
      = drop (64 - t + 64 * ((k - (64 - t)) div 64)) (take k input)"
    unfolding partial_block_append [of m] partial_block_def [of ?y]
    using lt len by simp
qed

lemma MD5Update_rep:
  assumes rep: "md5_rep ctx m" and k: "unat inputlen = k" "k \<le> length input"
    and small: "k + 64 < 4294967296"
  shows "\<exists>ctx'. MD5Update ctx input inputlen = Some (Inr ctx') \<and> md5_rep ctx' (m @ take k input)"
proof -
  define t where "t = length m mod 64"
  define index where "index = drop_bit 3 (count0 ctx) AND 0x3F"
  have t: "t < 64" by (simp add: t_def)
  from rep have len: "length (buffer ctx) = 64" and c0: "count0 ctx = of_nat (8 * length m)"
    and c1: "count1 ctx = of_nat (8 * length m div 4294967296)"
    and st: "state ctx = absorb MD5Transform md5_iv m"
    and pb: "take t (buffer ctx) = partial_block m"
    by (simp_all add: md5_rep_def t_def)
  have ui: "unat index = t" unfolding index_def t_def by (rule index_eq [OF c0])
  have up: "unat (64 - index) = 64 - t"
    using ui t by (subst unat_sub) (auto simp: word_le_nat_alt)
  have sp: "sint (64 - index) = int (64 - t)" using sint_small [of "64 - index"] up by simp
  define c0' where "c0' = count0 ctx + push_bit 3 inputlen"
  define c1' where "c1' = (if c0' < push_bit 3 inputlen then count1 ctx + 1 else count1 ctx)
    + drop_bit 29 inputlen"
  define m' where "m' = m @ take k input"
  have lenm: "length m' = length m + k" using k by (simp add: m'_def)
  have counts: "c0' = of_nat (8 * length m')" "c1' = of_nat (8 * length m' div 4294967296)"
    using count_carry [OF c0 c1 k(1)] unfolding c0'_def c1'_def lenm by blast+
  show ?thesis
  proof (cases "64 - t \<le> k")
    case True
    define buf where "buf = partial_block m @ take (64 - t) input"
    have "splice (buffer ctx) t (take (64 - t) (drop 0 input)) = buf"
      using True k t len by (simp add: splice_def buf_def pb)
    then have m1: "memcpy (buffer ctx) (unat index) input 0 (sint (64 - index)) = Inr buf"
      unfolding ui sp using True k t len by (subst memcpy_splice) auto
    have lbuf: "length buf = 64" using True k t by (simp add: buf_def t_def [symmetric])
    note fill = absorb_fill [OF t_def True k(2) buf_def, folded m'_def]
    obtain i where u: "update_blocks (MD5Transform (state ctx) buf) input inputlen (64 - index)
        = Some (Inr (absorb MD5Transform md5_iv m', i))"
      and i: "unat i = 64 - t + 64 * ((k - (64 - t)) div 64)"
      using update_blocks_eq [OF small k, of "64 - index" "MD5Transform (state ctx) buf"] True
      unfolding up st fill(1) by blast
    have le: "unat i \<le> k"
      using i True times_div_less_eq_dividend [of 64 "k - (64 - t)"] by linarith
    have r: "k - unat i < 64"
      using i True mod_less_divisor [of 64 "k - (64 - t)"]
        mult_div_mod_eq [of 64 "k - (64 - t)"] by linarith
    have ud: "unat (inputlen - i) = k - unat i"
      using le k(1) by (subst unat_sub) (auto simp: word_le_nat_alt)
    have sd: "sint (inputlen - i) = int (k - unat i)" using sint_small [of "inputlen - i"] ud r by simp
    define z where "z = take (k - unat i) (drop (unat i) input)"
    have m2: "memcpy buf 0 input (unat i) (sint (inputlen - i)) = Inr (splice buf 0 z)"
      unfolding sd z_def using le k r lbuf by (intro memcpy_splice) auto
    have z: "partial_block m' = z"
      unfolding fill(2) i [symmetric] z_def by (simp add: drop_take)
    have lz: "length z = (length m + k) mod 64"
      using z length_partial_block [of m'] lenm by simp
    have "\<not> (inputlen < 64 - index)" using True up k(1) by (simp add: word_less_nat_alt)
    then have "MD5Update ctx input inputlen = Some (Inr (ctx
        \<lparr>count0 := c0', count1 := c1',
         state := absorb MD5Transform md5_iv m', buffer := splice buf 0 z\<rparr>))"
      using m1 m2 u by (simp add: MD5Update_def index_def [symmetric] Let_def c0'_def [symmetric] c1'_def [symmetric] not_less)
    then show ?thesis
      unfolding m'_def [symmetric] using lz lbuf r z lenm by (auto simp: md5_rep_def counts splice_def)
  next
    case False
    have sk: "sint inputlen = int k" using sint_small [of inputlen] k False by simp
    have mc: "memcpy (buffer ctx) (unat index) input 0 (sint inputlen)
        = Inr (splice (buffer ctx) t (take k input))"
      unfolding ui sk using False k t len by (subst memcpy_splice) auto
    have "\<not> 64 - index \<le> inputlen" using False up k(1) by (simp add: word_le_nat_alt)
    then have upd: "MD5Update ctx input inputlen = Some (Inr (ctx
        \<lparr>count0 := c0', count1 := c1',
         buffer := splice (buffer ctx) t (take k input)\<rparr>))"
      using mc by (simp add: MD5Update_def index_def [symmetric] Let_def c0'_def [symmetric] c1'_def [symmetric])
    have short: "length (partial_block m @ take k input) < 64"
      using False k by (simp add: t_def [symmetric])
    have "absorb MD5Transform md5_iv m'
        = absorb MD5Transform (absorb MD5Transform md5_iv m) (partial_block m @ take k input)"
      unfolding m'_def by (rule absorb_append)
    then have ab: "absorb MD5Transform md5_iv m' = state ctx" using st short by simp
    have "partial_block m' = partial_block (partial_block m @ take k input)"
      unfolding m'_def by (rule partial_block_append)
    then have pbk: "partial_block m' = partial_block m @ take k input" using short by simp
    have md: "(length m + k) mod 64 = t + k"
      using False t mod_add_left_eq [of "length m" 64 k] by (simp add: t_def [symmetric])
    show ?thesis
      unfolding m'_def [symmetric]
      using upd take_splice [of t "take k input" "buffer ctx"] False k len
      by (auto simp: md5_rep_def lenm counts ab pbk md pb)
  qed
qed

lemma absorb_MD5Transform: "absorb MD5Transform st bs = absorb md5_compress st bs"
proof (induction MD5Transform st bs rule: absorb.induct)
  case (1 st bs)
  then show ?case
    by (subst (1 2) absorb.simps) (simp add: MD5Transform_compress)
qed

lemma encode_count:
  "MD5Encode [of_nat n, of_nat (n div 4294967296)] 8 = le_bytes 8 n"
proof -
  have 8: "le_bytes 8 n = le_bytes 4 n @ le_bytes 4 (n div 4294967296)"
    using le_bytes_add [of 4 4 n] by simp
  have m: "le_bytes 4 (unat (of_nat x :: u32)) = le_bytes 4 x" for x
    using le_bytes_mod [of 4 x] by (simp add: unat_of_nat)
  show ?thesis by (simp add: MD5Encode_eq 8 m)
qed

lemma MD5Final_digest:
  assumes rep: "md5_rep ctx m"
  shows "\<exists>ctx'. MD5Final ctx = Some (Inr (ctx', md5 m))"
proof -
  define index where "index = drop_bit 3 (count0 ctx) AND 0x3F"
  define padlen where "padlen = (if index < 56 then 56 - index else 120 - index)"
  let ?t = "length m mod 64"
  from rep have c0: "count0 ctx = of_nat (8 * length m)"
    and c1: "count1 ctx = of_nat (8 * length m div 4294967296)"
    by (simp_all add: md5_rep_def)
  have ui: "unat index = ?t" unfolding index_def by (rule index_eq [OF c0])
  have t: "?t < 64" by simp
  have up: "unat padlen = Suc ((119 - ?t) mod 64)"
  proof (cases "?t < 56")
    case True
    then have "119 - ?t = 55 - ?t + 64" by simp
    then have "(119 - ?t) mod 64 = (55 - ?t) mod 64" by (simp only: mod_add_self2)
    then have "(119 - ?t) mod 64 = 55 - ?t" by simp
    moreover have "index < 56" using True ui by (simp add: word_less_nat_alt)
    moreover from this have "unat (56 - index) = 56 - ?t"
      using ui by (subst unat_sub) (auto simp: word_le_nat_alt word_less_nat_alt)
    moreover have "56 - ?t = Suc (55 - ?t)" using True by arith
    ultimately show ?thesis by (simp add: padlen_def)
  next
    case False
    then have "\<not> index < 56" using ui by (simp add: word_less_nat_alt)
    moreover from this have "unat (120 - index) = 120 - ?t"
      using ui t by (subst unat_sub) (auto simp: word_le_nat_alt)
    ultimately show ?thesis using False t by (simp add: padlen_def)
  qed
  have pl: "unat padlen \<le> length PADDING" using up by (simp add: PADDING_def)
  have pad: "take (unat padlen) PADDING = 0x80 # replicate ((119 - ?t) mod 64) 0"
    using up by (simp add: PADDING_def min_def)
  have "unat padlen + 64 < 4294967296" using up mod_less_divisor [of 64 "119 - ?t"] by linarith
  then obtain c where c: "MD5Update ctx PADDING padlen = Some (Inr c)"
    and rc: "md5_rep c (m @ take (unat padlen) PADDING)"
    using MD5Update_rep [OF rep refl pl] by blast
  define bits where "bits = MD5Encode [count0 ctx, count1 ctx] 8"
  have bits: "bits = le_bytes 8 (8 * length m)"
    unfolding bits_def c0 c1 by (rule encode_count)
  obtain d where d: "MD5Update c bits 8 = Some (Inr d)" and rd: "md5_rep d (md5_pad m)"
    using MD5Update_rep [OF rc, of 8 8 bits] by (auto simp: bits pad md5_pad_def)
  have "state d = absorb md5_compress md5_iv (md5_pad m)"
    using rd by (simp add: md5_rep_def absorb_MD5Transform)
  then have "MD5Final ctx = Some (Inr (d, md5 m))"
    using c d by (auto simp: MD5Final_def Let_def index_def [symmetric] padlen_def [symmetric]
        bits_def [symmetric] md5_def digest_bytes_def MD5Encode_eq split: prod.splits)
  then show ?thesis by blast
qed

section \<open>The interface of a streaming hash\<close>

fun update_all ::
  "('c \<Rightarrow> byte list \<Rightarrow> u32 \<Rightarrow> 'c res option) \<Rightarrow> 'c \<Rightarrow> byte list list \<Rightarrow> 'c res option" where
  "update_all update c [] = Some (Inr c)"
| "update_all update c (x # xs) =
     and_then (update c x (of_nat (length x))) (\<lambda>c. update_all update c xs)"

locale streaming_hash =
  fixes init :: "'c \<Rightarrow> 'c"
    and update :: "'c \<Rightarrow> byte list \<Rightarrow> u32 \<Rightarrow> 'c res option"
    and final :: "'c \<Rightarrow> ('c \<times> byte list) res option"
    and rep :: "'c \<Rightarrow> byte list \<Rightarrow> bool"
    and fresh :: "'c \<Rightarrow> bool"
    and hash :: "byte list \<Rightarrow> byte list"
    and limit :: nat
  assumes init_rep: "fresh c \<Longrightarrow> rep (init c) []"
    and update_rep: "rep c m \<Longrightarrow> length x < limit \<Longrightarrow>
      \<exists>c'. update c x (of_nat (length x)) = Some (Inr c') \<and> rep c' (m @ x)"
    and final_hash: "rep c m \<Longrightarrow> \<exists>c'. final c = Some (Inr (c', hash m))"
begin

lemma update_all_rep:
  "rep c m \<Longrightarrow> \<forall>x \<in> set xs. length x < limit \<Longrightarrow>
     \<exists>c'. update_all update c xs = Some (Inr c') \<and> rep c' (m @ concat xs)"
proof (induction xs arbitrary: c m)
  case Nil
  then show ?case by simp
next
  case (Cons x xs)
  from Cons.prems obtain c' where c': "update c x (of_nat (length x)) = Some (Inr c')" "rep c' (m @ x)"
    using update_rep [of c m x] by auto
  with Cons.IH [OF c'(2)] Cons.prems(2) show ?case by simp
qed

lemma stream_hash:
  assumes "fresh c" and "\<forall>x \<in> set xs. length x < limit"
  shows "\<exists>c'. and_then (update_all update (init c) xs) final = Some (Inr (c', hash (concat xs)))"
  using update_all_rep [OF init_rep [OF assms(1)] assms(2)] final_hash by fastforce

end

interpretation md5_stream: streaming_hash MD5Init MD5Update MD5Final md5_rep
  "\<lambda>c. length (buffer c) = 64" md5 "4294967232"
proof
  show "length (buffer c) = 64 \<Longrightarrow> md5_rep (MD5Init c) []" for c by (rule MD5Init_rep)
next
  fix c m and x :: "byte list"
  assume "md5_rep c m" and "length x < 4294967232"
  then show "\<exists>c'. MD5Update c x (of_nat (length x)) = Some (Inr c') \<and> md5_rep c' (m @ x)"
    using MD5Update_rep [of c m "of_nat (length x)" "length x" x] by (simp add: unat_of_nat)
next
  show "md5_rep c m \<Longrightarrow> \<exists>c'. MD5Final c = Some (Inr (c', md5 m))" for c m by (rule MD5Final_digest)
qed

section \<open>Properties\<close>

text \<open>
  C1: For any split of a message into pieces (each shorter than \<open>2^32 - 64\<close> bytes),
  \<open>MD5Init\<close>, one \<open>MD5Update\<close> per piece and \<open>MD5Final\<close> return, and the digest is the RFC 1321
  MD5 of the concatenation: the buffering, the 64-bit bit count with its carry and the padding
  of \<open>md5.c\<close> do not depend on how the input is cut.
\<close>

theorem md5_streaming_correct:
  assumes "length (buffer c) = 64" and "\<forall>x \<in> set pieces. length x < 4294967232"
  shows "\<exists>c'. and_then (update_all MD5Update (MD5Init c) pieces) MD5Final
    = Some (Inr (c', md5 (concat pieces)))"
  using assms by (rule md5_stream.stream_hash)

lemma md5_streaming_correct_witness:
  "\<exists>c'. and_then (update_all MD5Update
      (MD5Init \<lparr>count0 = 7, count1 = 9, state = (1, 2, 3, 4), buffer = replicate 64 5\<rparr>)
      [[0x61, 0x62], [], [0x63]]) MD5Final = Some (Inr (c', md5 [0x61, 0x62, 0x63]))"
  using md5_streaming_correct
    [of "\<lparr>count0 = 7, count1 = 9, state = (1, 2, 3, 4), buffer = replicate 64 5\<rparr>"
      "[[0x61, 0x62], [], [0x63]]"] by simp

text \<open>
  C19: On every state and every 64-byte block the unrolled \<open>MD5Transform\<close> computes the
  compression function of RFC 1321 (64 steps driven by the tables of constants, shifts and word
  indices).
\<close>

theorem MD5Transform_is_rfc1321:
  assumes "length block = 64"
  shows "MD5Transform st block = md5_compress st block"
  using assms by (rule MD5Transform_compress)

lemma MD5Transform_is_rfc1321_witness:
  "MD5Transform md5_iv (replicate 64 0) = md5_compress md5_iv (replicate 64 0)"
  by (rule MD5Transform_is_rfc1321) simp

text \<open>
  \<open>MD5Decode\<close> inverts \<open>MD5Encode\<close>: sixteen words written out little-endian and read back
  are the same words.
\<close>

theorem MD5Decode_MD5Encode:
  assumes "length ws = 16"
  shows "MD5Decode (MD5Encode ws 64) 64 = ws"
proof -
  let ?e = "\<lambda>w :: u32. le_bytes 4 (unat w)"
  have e: "MD5Encode ws 64 = concat (map ?e ws)" by (rule MD5Encode_eq) (simp add: assms)
  have len: "length (MD5Encode ws 64) = 64" unfolding e using length_concat_map [of ?e 4 ws] assms by simp
  have word: "take 4 (drop (4 * i) (MD5Encode ws 64)) = ?e (ws ! i)" if "i < 16" for i
    unfolding e using that assms by (intro take_drop_concat) simp_all
  show ?thesis
    unfolding MD5Decode_eq [OF len] le_words_def
    by (rule nth_equalityI) (simp_all add: assms word unat_of_nat)
qed

lemma MD5Decode_MD5Encode_witness:
  "MD5Decode (MD5Encode (map of_nat [1000..<1016]) 64) 64 = map of_nat [1000..<1016]"
  by (rule MD5Decode_MD5Encode) simp

lemma u32_max: "w \<le> (0xFFFFFFFF :: u32)"
proof -
  have "unat w < 4294967296" by (rule unat_u32_less)
  then have "unat w \<le> 4294967295" by linarith
  then show ?thesis by (simp add: word_le_nat_alt)
qed

text \<open>The block loop with the largest length: the indices it visits, and that it has no exit.\<close>

lemma update_blocks_max_fault:
  assumes "length input < 4294967296 + r" "4294967295 \<le> length input" "r < 64"
    and "unat i mod 64 = r" "unat i \<le> 4294967232 + r"
  shows "update_blocks st input 0xFFFFFFFF i = Some (Inl (IndexFault (int (4294967232 + r))))"
  using assms(4,5)
proof (induction "4294967232 + r - unat i" arbitrary: st i rule: less_induct)
  case less
  have max: "i + 64 \<le> 0xFFFFFFFF" by (rule u32_max)
  show ?case
  proof (cases "unat i = 4294967232 + r")
    case True
    then have "\<not> unat i + 64 \<le> length input" "uint i = int (4294967232 + r)"
      using assms(1) by (simp, metis uint_nat)
    then show ?thesis using max by (subst update_blocks.simps) simp
  next
    case False
    have "(67108863 * 64 + r) mod 64 = r" using assms(3) by (simp only: mod_mult_self3 mod_less)
    then have "(4294967232 + r) mod 64 = r" by simp
    then have "64 dvd 4294967232 + r - unat i" using less.prems by (metis mod_eq_dvd_iff_nat)
    then obtain k where k: "4294967232 + r - unat i = 64 * k" by blast
    moreover from this have "0 < k" using False less.prems(2) by (intro gr0I) simp
    ultimately have le: "unat i + 64 \<le> 4294967232 + r" by linarith
    then have u: "unat (i + 64) = unat i + 64" using assms(3) by (simp add: unat_word_ariths)
    have "update_blocks (MD5Transform st (take 64 (drop (unat i) input))) input 0xFFFFFFFF (i + 64) =
        Some (Inl (IndexFault (int (4294967232 + r))))"
      using less.prems le u by (intro less.hyps) auto
    moreover have "unat i + 64 \<le> length input" using le assms(2,3) by linarith
    ultimately show ?thesis using max by (subst update_blocks.simps) simp
  qed
qed

lemma update_blocks_max_runs:
  assumes "4294967296 + r \<le> length input" "r < 64" "unat i mod 64 = r"
  shows "update_blocks st input 0xFFFFFFFF i = None"
proof (rule ccontr)
  assume "\<not> ?thesis"
  then obtain x where "update_blocks st input 0xFFFFFFFF i = Some x" by blast
  then show False
  proof (rule update_blocks.raw_induct
      [where P = "\<lambda>_ inp n i _. \<not> (n = 0xFFFFFFFF \<and> 4294967296 + r \<le> length inp \<and> unat i mod 64 = r)", THEN notE, rotated])
    show "(0xFFFFFFFF :: u32) = 0xFFFFFFFF \<and> 4294967296 + r \<le> length input \<and> unat i mod 64 = r"
      using assms by simp
  next
    fix f :: "abcd \<Rightarrow> byte list \<Rightarrow> u32 \<Rightarrow> u32 \<Rightarrow> (abcd \<times> u32) res option"
      and st inp n i x
    assume IH: "\<And>st inp n i x. f st inp n i = Some x \<Longrightarrow>
        \<not> (n = 0xFFFFFFFF \<and> 4294967296 + r \<le> length inp \<and> unat i mod 64 = r)"
      and eq: "(if i + 64 \<le> n then
         if unat i + 64 \<le> length inp then
           f (MD5Transform st (take 64 (drop (unat i) inp))) inp n (i + 64)
         else Some (Inl (IndexFault (uint i)))
       else Some (Inr (st, i))) = Some x"
    show "\<not> (n = 0xFFFFFFFF \<and> 4294967296 + r \<le> length inp \<and> unat i mod 64 = r)"
    proof
      assume a: "n = 0xFFFFFFFF \<and> 4294967296 + r \<le> length inp \<and> unat i mod 64 = r"
      have "unat i \<le> 4294967232 + r"
      proof (rule ccontr)
        assume "\<not> ?thesis"
        then have "4294967232 + r < unat i" "unat i < 4294967296" by simp_all
        then have "unat i - 4294967232 < 64" "r < unat i - 4294967232" using assms(2) by linarith+
        moreover have "unat i mod 64 = (unat i - 4294967232 + 64 * 67108863) mod 64"
          using \<open>4294967232 + r < unat i\<close> by simp
        ultimately show False using a by (simp only: mod_mult_self2 mod_less)
      qed
      then have "unat i + 64 \<le> length inp" using a by linarith
      moreover have "i + 64 \<le> n" using a u32_max by blast
      moreover have "unat (i + 64) mod 64 = r" using a by (simp add: unat_word_ariths mod_mod_cancel)
      ultimately show False using eq IH a by fastforce
    qed
  qed
qed

text \<open>
  C40: The largest length. With the length \<open>2^32 - 1\<close> and an input object of at least that many
  bytes, \<open>i + 64\<close> wraps around before it exceeds the length, so the loop over whole blocks does not
  stop at the end of the input: it reads a block that reaches past an object of fewer than
  \<open>2^32 + r\<close> bytes, where \<open>r\<close> is the offset of the block boundaries in the input (in particular an
  object of exactly the length given); inside a larger object it never returns.
\<close>

theorem MD5Update_max_length:
  assumes "length (buffer ctx) = 64" "4294967295 \<le> length input"
  shows "MD5Update ctx input 0xFFFFFFFF =
    (let r = unat (64 - (drop_bit 3 (count0 ctx) AND 0x3F)) mod 64 in
     if length input < 4294967296 + r then Some (Inl (IndexFault (int (4294967232 + r)))) else None)"
proof -
  define index where "index = drop_bit 3 (count0 ctx) AND 0x3F"
  define r where "r = unat (64 - index) mod 64"
  have "index = take_bit 6 (drop_bit 3 (count0 ctx))"
    by (simp add: index_def take_bit_eq_mask mask_eq_exp_minus_1)
  then have "unat index = take_bit 6 (unat (drop_bit 3 (count0 ctx)))" by (simp only: unsigned_take_bit_eq)
  also have "\<dots> < 2 ^ 6" by (rule take_bit_nat_less_exp)
  finally have ui: "unat index < 64" by simp
  have up: "unat (64 - index) = 64 - unat index" using ui by (subst unat_sub) (auto simp: word_le_nat_alt)
  have sp: "sint (64 - index) = int (64 - unat index)" using sint_small [of "64 - index"] up by simp
  define buf where "buf = splice (buffer ctx) (unat index) (take (64 - unat index) (drop 0 input))"
  have m: "memcpy (buffer ctx) (unat index) input 0 (sint (64 - index)) = Inr buf"
    unfolding sp buf_def using assms ui by (intro memcpy_splice) auto
  have "64 - index \<le> 0xFFFFFFFF" by (rule u32_max)
  moreover have "r < 64" "unat (64 - index) \<le> 4294967232 + r" using up by (simp_all add: r_def)
  then have "update_blocks (MD5Transform (state ctx) buf) input 0xFFFFFFFF (64 - index) =
      (if length input < 4294967296 + r then Some (Inl (IndexFault (int (4294967232 + r)))) else None)"
    using update_blocks_max_fault [OF _ assms(2) _ r_def [symmetric]]
      update_blocks_max_runs [OF _ _ r_def [symmetric]] by (simp add: not_less)
  ultimately show ?thesis
    unfolding MD5Update_def Let_def index_def [symmetric] r_def [symmetric] using m by simp
qed

theorem MD5Update_max_length_witness:
  "MD5Update \<lparr>count0 = 0, count1 = 0, state = md5_iv, buffer = replicate 64 0\<rparr>
     (replicate 4294967295 0) 0xFFFFFFFF = Some (Inl (IndexFault 4294967232))"
  using MD5Update_max_length [of "\<lparr>count0 = 0, count1 = 0, state = md5_iv, buffer = replicate 64 0\<rparr>"
      "replicate 4294967295 0"] by simp

end
