(* ===== verification/Machine.thy ===== *)
theory Machine
  imports Prelude
begin

text \<open>
  The state of a virtual machine: \<open>simulator/cpu.h\<close> (registers), \<open>simulator/vm.h\<close>
  (\<open>vm_t\<close>, its memory and its threads) and the calling convention of \<open>simulator/vm.c\<close>
  (\<open>abi_func_*\<close>). The host operating system is the record \<open>host\<close> of the calls the
  simulator makes; it is a parameter of every operation that uses it.
\<close>

section \<open>Registers (cpu.h)\<close>

text \<open>
  The pointers \<open>gp fp sp lr sw\<close> of a core and \<open>pc epc hi lo\<close> of the coprocessor are set once,
  by \<open>cpu_init\<close>, and never again; the model has the indices they point to.
\<close>

definition GPR_COUNT :: nat where "GPR_COUNT = 16"
definition CPR_COUNT :: nat where "CPR_COUNT = 4"

definition GP :: nat where "GP = 11"
definition FP :: nat where "FP = 12"
definition SP :: nat where "SP = 13"
definition LR :: nat where "LR = 14"
definition SW :: nat where "SW = 15"
definition PC :: nat where "PC = 0"
definition EPC :: nat where "EPC = 1"
definition HI :: nat where "HI = 2"
definition LO :: nat where "LO = 3"

lemmas reg_defs = GP_def FP_def SP_def LR_def SW_def PC_def EPC_def HI_def LO_def

record cpu =
  gpr :: "nat \<Rightarrow> u32"
  cpr :: "nat \<Rightarrow> u32"

section \<open>The machine (vm.h)\<close>

definition MAX_THREAD :: nat where "MAX_THREAD = 32"

record elf_sym =
  st_name :: u32
  st_value :: u32

record elf_info =
  sym_addr :: "elf_sym list"
  sym_count :: u32
  str_addr :: "byte list"

text \<open>\<open>start\<close> and \<open>end\<close> are host addresses, \<open>brk\<close> is an offset from \<open>start\<close> (see
  \<open>load_elf\<close> and \<open>cpu0_brk\<close>); \<open>data\<close> is the block that \<open>malloc\<close> returned.\<close>

record memory =
  m_start :: u64
  m_end :: u64
  m_brk :: u64
  m_data :: mem

record thread_ctx =
  t_flag :: u32
  t_prev_sp :: u32
  t_entry :: u64
  t_sp :: u64
  t_sp_end :: u64

record vm =
  elf :: elf_info
  cpu :: cpu
  mem :: memory
  entry :: u32
  stack_size :: u32
  param_count :: u32
  threads :: "nat \<Rightarrow> thread_ctx"

section \<open>Register access\<close>

definition get_gpr :: "nat \<Rightarrow> vm \<Rightarrow> u32" where
  "get_gpr n v = gpr (cpu v) n"

definition set_gpr :: "nat \<Rightarrow> u32 \<Rightarrow> vm \<Rightarrow> vm" where
  "set_gpr n x v = v\<lparr>cpu := (cpu v)\<lparr>gpr := (gpr (cpu v))(n := x)\<rparr>\<rparr>"

definition get_cpr :: "nat \<Rightarrow> vm \<Rightarrow> u32" where
  "get_cpr n v = cpr (cpu v) n"

definition set_cpr :: "nat \<Rightarrow> u32 \<Rightarrow> vm \<Rightarrow> vm" where
  "set_cpr n x v = v\<lparr>cpu := (cpu v)\<lparr>cpr := (cpr (cpu v))(n := x)\<rparr>\<rparr>"

definition set_prev_sp :: "nat \<Rightarrow> u32 \<Rightarrow> vm \<Rightarrow> vm" where
  "set_prev_sp tid x v =
     v\<lparr>threads := (threads v)(tid := (threads v tid)\<lparr>t_prev_sp := x\<rparr>)\<rparr>"

lemma get_set_gpr [simp]: "get_gpr n (set_gpr k x v) = (if n = k then x else get_gpr n v)"
  by (simp add: get_gpr_def set_gpr_def)

lemma get_set_cpr [simp]: "get_cpr n (set_cpr k x v) = (if n = k then x else get_cpr n v)"
  by (simp add: get_cpr_def set_cpr_def)

lemma get_gpr_other [simp]:
  "get_gpr n (set_cpr k x v) = get_gpr n v" "get_gpr n (set_prev_sp t x v) = get_gpr n v"
  by (simp_all add: get_gpr_def set_cpr_def set_prev_sp_def)

lemma get_cpr_other [simp]:
  "get_cpr n (set_gpr k x v) = get_cpr n v" "get_cpr n (set_prev_sp t x v) = get_cpr n v"
  by (simp_all add: get_cpr_def set_gpr_def set_prev_sp_def)

lemma set_reg_frame [frame_simps]:
  "mem (set_gpr k x v) = mem v" "elf (set_gpr k x v) = elf v" "threads (set_gpr k x v) = threads v"
  "entry (set_gpr k x v) = entry v" "stack_size (set_gpr k x v) = stack_size v"
  "param_count (set_gpr k x v) = param_count v"
  "mem (set_cpr k x v) = mem v" "elf (set_cpr k x v) = elf v" "threads (set_cpr k x v) = threads v"
  "entry (set_cpr k x v) = entry v" "stack_size (set_cpr k x v) = stack_size v"
  "param_count (set_cpr k x v) = param_count v"
  "mem (set_prev_sp t x v) = mem v" "elf (set_prev_sp t x v) = elf v"
  "entry (set_prev_sp t x v) = entry v" "stack_size (set_prev_sp t x v) = stack_size v"
  "param_count (set_prev_sp t x v) = param_count v"
  by (simp_all add: set_gpr_def set_cpr_def set_prev_sp_def)

lemma prev_sp_set_prev_sp [simp]: "t_prev_sp (threads (set_prev_sp t x v) t) = x"
  by (simp add: set_prev_sp_def)

lemma set_gpr_set_gpr [simp]: "set_gpr n x (set_gpr n y v) = set_gpr n x v"
  by (simp add: set_gpr_def)

lemma set_cpr_set_cpr [simp]: "set_cpr n x (set_cpr n y v) = set_cpr n x v"
  by (simp add: set_cpr_def)

section \<open>Guest memory\<close>

definition vm_size :: "vm \<Rightarrow> nat" where
  "vm_size v = unat (m_end (mem v) - m_start (mem v))"

definition in_mem :: "vm \<Rightarrow> int \<Rightarrow> nat \<Rightarrow> bool" where
  "in_mem v off n \<longleftrightarrow> 0 \<le> off \<and> off + int n \<le> int (vm_size v)"

text \<open>An access of \<open>n\<close> bytes through \<open>mem.start + off\<close>.\<close>

definition mem_read :: "nat \<Rightarrow> int \<Rightarrow> vm \<Rightarrow> nat res" where
  "mem_read n off v =
     (if in_mem v off n then Inr (load_le (m_data (mem v)) (nat off) n) else Inl (MemFault off))"

definition mem_write :: "nat \<Rightarrow> int \<Rightarrow> nat \<Rightarrow> vm \<Rightarrow> vm res" where
  "mem_write n off x v =
     (if in_mem v off n
      then Inr (v\<lparr>mem := (mem v)\<lparr>m_data := store_le (m_data (mem v)) (nat off) n x\<rparr>\<rparr>)
      else Inl (MemFault off))"

lemma in_mem_int: "in_mem v (int a) n \<longleftrightarrow> a + n \<le> vm_size v"
  unfolding in_mem_def by (metis of_nat_0_le_iff of_nat_add of_nat_le_iff)

lemma mem_read_write_same:
  "mem_write n off x v = Inr v' \<Longrightarrow> mem_read n off v' = Inr (x mod 256 ^ n)"
  by (auto simp: mem_write_def mem_read_def in_mem_def vm_size_def mem_simps split: if_splits)

lemma mem_read_write_other:
  "mem_write k off' x v = Inr v' \<Longrightarrow> off + int n \<le> off' \<or> off' + int k \<le> off \<Longrightarrow>
     mem_read n off v' = mem_read n off v"
proof -
  assume w: "mem_write k off' x v = Inr v'" and d: "off + int n \<le> off' \<or> off' + int k \<le> off"
  have "load_le (store_le m (nat off') k x) (nat off) n = load_le m (nat off) n"
    if "0 \<le> off" "0 \<le> off'" for m
    using d that by (intro load_store_le_other) auto
  with w show ?thesis
    by (auto simp: mem_write_def mem_read_def in_mem_def vm_size_def split: if_splits)
qed

lemma mem_write_frame:
  "mem_write n off x v = Inr v' \<Longrightarrow>
     cpu v' = cpu v \<and> elf v' = elf v \<and> threads v' = threads v \<and> entry v' = entry v \<and>
     stack_size v' = stack_size v \<and> param_count v' = param_count v \<and>
     m_start (mem v') = m_start (mem v) \<and> m_end (mem v') = m_end (mem v) \<and>
     m_brk (mem v') = m_brk (mem v)"
  by (auto simp: mem_write_def split: if_splits)

section \<open>The calling convention (vm.c, vm.h)\<close>

definition ABI_PARAM_TO_ADDR :: "u32 \<Rightarrow> int" where
  "ABI_PARAM_TO_ADDR p = uint p"

definition ABI_ADDR_TO_PARAM :: "vm \<Rightarrow> u64 \<Rightarrow> u32" where
  "ABI_ADDR_TO_PARAM v addr = ucast (addr - m_start (mem v))"

text \<open>The first two parameters are in registers 4 and 5, the others on the caller's stack.\<close>

definition abi_func_param_n :: "vm \<Rightarrow> nat \<Rightarrow> u32 \<Rightarrow> u32 res" where
  "abi_func_param_n v tid idx =
     (if idx = 1 then Inr (get_gpr 4 v)
      else if idx = 2 then Inr (get_gpr 5 v)
      else if 2 < idx then
        (if tid < MAX_THREAD then
           res_bind (mem_read 4 (sint (t_prev_sp (threads v tid)) + 4 + uint ((idx - 2) * 4)) v)
             (\<lambda>x. Inr (of_nat x))
         else Inl (ThreadFault tid))
      else Inr (-1))"

definition abi_func_set_return :: "vm \<Rightarrow> u32 \<Rightarrow> vm" where
  "abi_func_set_return v ret = set_gpr 3 ret v"

definition abi_func_get_return_int :: "vm \<Rightarrow> nat \<Rightarrow> u32" where
  "abi_func_get_return_int v tid = get_gpr 2 v"

definition abi_func_get_return_addr :: "vm \<Rightarrow> nat \<Rightarrow> u64" where
  "abi_func_get_return_addr v tid = m_start (mem v) + scast (get_gpr 2 v)"

section \<open>The host\<close>

text \<open>
  The calls of the C library and the operating system that the simulator makes, over a state
  \<open>'w\<close> of the host. \<open>h_read\<close> returns the call's result and the bytes it stored in the buffer;
  \<open>h_uninit\<close> is the value an uninitialised local variable is found to hold.
\<close>

record 'w host =
  h_print :: "byte list \<Rightarrow> 'w \<Rightarrow> 'w"
  h_puts :: "byte list \<Rightarrow> 'w \<Rightarrow> u32 \<times> 'w"
  h_open :: "byte list \<Rightarrow> u32 \<Rightarrow> 'w \<Rightarrow> u32 \<times> 'w"
  h_read :: "u32 \<Rightarrow> u64 \<Rightarrow> 'w \<Rightarrow> (u64 \<times> byte list) \<times> 'w"
  h_write :: "u32 \<Rightarrow> byte list \<Rightarrow> 'w \<Rightarrow> u64 \<times> 'w"
  h_close :: "u32 \<Rightarrow> 'w \<Rightarrow> u32 \<times> 'w"
  h_lseek :: "u32 \<Rightarrow> u64 \<Rightarrow> u32 \<Rightarrow> 'w \<Rightarrow> u64 \<times> 'w"
  h_time :: "'w \<Rightarrow> u64 \<times> 'w"
  h_malloc :: "u64 \<Rightarrow> 'w \<Rightarrow> (u64 \<times> mem) \<times> 'w"
  h_uninit :: "'w \<Rightarrow> u32"

text \<open>A host whose files all hold the bytes 1, 2, 3, ...; it prints nothing.\<close>

definition sample_host :: "unit host" where
  "sample_host =
    \<lparr>h_print = (\<lambda>_ w. w), h_puts = (\<lambda>s w. (of_nat (length s), w)), h_open = (\<lambda>_ _ w. (3, w)),
     h_read = (\<lambda>fd n w. let bs = map of_nat [1..<Suc (min 4 (unat n))] in ((of_nat (length bs), bs), w)),
     h_write = (\<lambda>_ bs w. (of_nat (length bs), w)), h_close = (\<lambda>_ w. (0, w)),
     h_lseek = (\<lambda>_ off _ w. (off, w)), h_time = (\<lambda>w. (0, w)),
     h_malloc = (\<lambda>_ w. ((0x1000, \<lambda>_. 0), w)), h_uninit = (\<lambda>_. 0)\<rparr>"

definition ascii :: "string \<Rightarrow> byte list" where
  "ascii s = map of_char s"

text \<open>The C string at an offset of guest memory; running out of memory is a fault.\<close>

function cstr :: "mem \<Rightarrow> nat \<Rightarrow> nat \<Rightarrow> byte list option" where
  "cstr m a sz =
     (if a < sz then
        (if m a = 0 then Some [] else map_option (Cons (m a)) (cstr m (a + 1) sz))
      else None)"
  by pat_completeness auto
termination
  by (relation "measure (\<lambda>(m, a, sz). sz - a)") auto

declare cstr.simps [simp del]

definition mem_cstr :: "int \<Rightarrow> vm \<Rightarrow> byte list res" where
  "mem_cstr off v =
     (if 0 \<le> off then
        (case cstr (m_data (mem v)) (nat off) (vm_size v) of
           Some s \<Rightarrow> Inr s
         | None \<Rightarrow> Inl (MemFault (int (vm_size v))))
      else Inl (MemFault off))"

end
