(* ===== verification/Inst.thy ===== *)
theory Inst
  imports Machine
begin

text \<open>
  Instruction encoding: the opcode table and the field macros of \<open>simulator/inst.h\<close>, and the
  decoding at the top of \<open>run_loop\<close> in \<open>simulator/cpu.c\<close> (sign extension of the 12-, 16- and
  24-bit immediates).
\<close>

section \<open>Opcodes\<close>

definition OPC_NOP :: u32 where "OPC_NOP = 0x00"
definition OPC_LD :: u32 where "OPC_LD = 0x01"
definition OPC_ST :: u32 where "OPC_ST = 0x02"
definition OPC_LB :: u32 where "OPC_LB = 0x03"
definition OPC_LBU :: u32 where "OPC_LBU = 0x04"
definition OPC_SB :: u32 where "OPC_SB = 0x05"
definition OPC_LH :: u32 where "OPC_LH = 0x06"
definition OPC_LHU :: u32 where "OPC_LHU = 0x07"
definition OPC_SH :: u32 where "OPC_SH = 0x08"
definition OPC_ADDIU :: u32 where "OPC_ADDIU = 0x09"
definition OPC_MOVZ :: u32 where "OPC_MOVZ = 0x0A"
definition OPC_MOVN :: u32 where "OPC_MOVN = 0x0B"
definition OPC_ANDI :: u32 where "OPC_ANDI = 0x0C"
definition OPC_ORI :: u32 where "OPC_ORI = 0x0D"
definition OPC_XORI :: u32 where "OPC_XORI = 0x0E"
definition OPC_LUI :: u32 where "OPC_LUI = 0x0F"
definition OPC_CMP :: u32 where "OPC_CMP = 0x10"
definition OPC_ADDU :: u32 where "OPC_ADDU = 0x11"
definition OPC_SUBU :: u32 where "OPC_SUBU = 0x12"
definition OPC_ADD :: u32 where "OPC_ADD = 0x13"
definition OPC_SUB :: u32 where "OPC_SUB = 0x14"
definition OPC_CLZ :: u32 where "OPC_CLZ = 0x15"
definition OPC_CLO :: u32 where "OPC_CLO = 0x16"
definition OPC_MUL :: u32 where "OPC_MUL = 0x17"
definition OPC_AND :: u32 where "OPC_AND = 0x18"
definition OPC_OR :: u32 where "OPC_OR = 0x19"
definition OPC_XOR :: u32 where "OPC_XOR = 0x1A"
definition OPC_ROLI :: u32 where "OPC_ROLI = 0x1B"
definition OPC_RORI :: u32 where "OPC_RORI = 0x1C"
definition OPC_SRA :: u32 where "OPC_SRA = 0x1D"
definition OPC_SHL :: u32 where "OPC_SHL = 0x1E"
definition OPC_SHR :: u32 where "OPC_SHR = 0x1F"
definition OPC_SRAV :: u32 where "OPC_SRAV = 0x20"
definition OPC_SHLV :: u32 where "OPC_SHLV = 0x21"
definition OPC_SHRV :: u32 where "OPC_SHRV = 0x22"
definition OPC_ROL :: u32 where "OPC_ROL = 0x23"
definition OPC_ROR :: u32 where "OPC_ROR = 0x24"
definition OPC_JEQ :: u32 where "OPC_JEQ = 0x30"
definition OPC_JNE :: u32 where "OPC_JNE = 0x31"
definition OPC_JLT :: u32 where "OPC_JLT = 0x32"
definition OPC_JGT :: u32 where "OPC_JGT = 0x33"
definition OPC_JLE :: u32 where "OPC_JLE = 0x34"
definition OPC_JGE :: u32 where "OPC_JGE = 0x35"
definition OPC_JMP :: u32 where "OPC_JMP = 0x36"
definition OPC_JALR :: u32 where "OPC_JALR = 0x39"
definition OPC_JSUB :: u32 where "OPC_JSUB = 0x3B"
definition OPC_JR_RET :: u32 where "OPC_JR_RET = 0x3C"
definition OPC_MULT :: u32 where "OPC_MULT = 0x41"
definition OPC_MULTU :: u32 where "OPC_MULTU = 0x42"
definition OPC_DIV :: u32 where "OPC_DIV = 0x43"
definition OPC_DIVU :: u32 where "OPC_DIVU = 0x44"
definition OPC_MFHI :: u32 where "OPC_MFHI = 0x46"
definition OPC_MFLO :: u32 where "OPC_MFLO = 0x47"
definition OPC_MTHI :: u32 where "OPC_MTHI = 0x48"
definition OPC_MTLO :: u32 where "OPC_MTLO = 0x49"
definition OPC_MFC0 :: u32 where "OPC_MFC0 = 0x50"
definition OPC_MTC0 :: u32 where "OPC_MTC0 = 0x51"
definition OPC_C0MOV :: u32 where "OPC_C0MOV = 0x52"
definition OPC_SLTI :: u32 where "OPC_SLTI = 0x26"
definition OPC_SLTIU :: u32 where "OPC_SLTIU = 0x27"
definition OPC_SLT :: u32 where "OPC_SLT = 0x28"
definition OPC_SLTU :: u32 where "OPC_SLTU = 0x29"
definition OPC_BEQ :: u32 where "OPC_BEQ = 0x37"
definition OPC_BNE :: u32 where "OPC_BNE = 0x38"
definition OPC_BAL :: u32 where "OPC_BAL = 0x3A"
definition OPC_SSC :: u32 where "OPC_SSC = 0x53"

lemmas opc_defs =
  OPC_NOP_def OPC_LD_def OPC_ST_def OPC_LB_def OPC_LBU_def OPC_SB_def
  OPC_LH_def OPC_LHU_def OPC_SH_def OPC_ADDIU_def OPC_MOVZ_def OPC_MOVN_def
  OPC_ANDI_def OPC_ORI_def OPC_XORI_def OPC_LUI_def OPC_CMP_def OPC_ADDU_def
  OPC_SUBU_def OPC_ADD_def OPC_SUB_def OPC_CLZ_def OPC_CLO_def OPC_MUL_def
  OPC_AND_def OPC_OR_def OPC_XOR_def OPC_ROLI_def OPC_RORI_def OPC_SRA_def
  OPC_SHL_def OPC_SHR_def OPC_SRAV_def OPC_SHLV_def OPC_SHRV_def OPC_ROL_def
  OPC_ROR_def OPC_JEQ_def OPC_JNE_def OPC_JLT_def OPC_JGT_def OPC_JLE_def
  OPC_JGE_def OPC_JMP_def OPC_JALR_def OPC_JSUB_def OPC_JR_RET_def OPC_MULT_def
  OPC_MULTU_def OPC_DIV_def OPC_DIVU_def OPC_MFHI_def OPC_MFLO_def OPC_MTHI_def
  OPC_MTLO_def OPC_MFC0_def OPC_MTC0_def OPC_C0MOV_def OPC_SLTI_def OPC_SLTIU_def
  OPC_SLT_def OPC_SLTU_def OPC_BEQ_def OPC_BNE_def OPC_BAL_def OPC_SSC_def

section \<open>Fields\<close>

definition INST_OPC :: "u32 \<Rightarrow> u32" where "INST_OPC inst = drop_bit 24 inst"
definition INST_RA :: "u32 \<Rightarrow> u32" where "INST_RA inst = drop_bit 20 inst AND 0xF"
definition INST_RB :: "u32 \<Rightarrow> u32" where "INST_RB inst = drop_bit 16 inst AND 0xF"
definition INST_RC :: "u32 \<Rightarrow> u32" where "INST_RC inst = drop_bit 12 inst AND 0xF"
definition INST_CX_12 :: "u32 \<Rightarrow> u32" where "INST_CX_12 inst = inst AND 0xFFF"
definition INST_CX_16 :: "u32 \<Rightarrow> u32" where "INST_CX_16 inst = inst AND 0xFFFF"
definition INST_CX_24 :: "u32 \<Rightarrow> u32" where "INST_CX_24 inst = inst AND 0xFFFFFF"

lemmas inst_fields = INST_OPC_def INST_RA_def INST_RB_def INST_RC_def
  INST_CX_12_def INST_CX_16_def INST_CX_24_def

record operands =
  opc :: u32
  ra :: nat
  rb :: nat
  rc :: nat
  c12 :: u32
  c16 :: u32
  c24 :: u32

definition decode :: "u32 \<Rightarrow> operands" where
  "decode inst =
    \<lparr>opc = INST_OPC inst,
     ra = unat (INST_RA inst),
     rb = unat (INST_RB inst),
     rc = unat (INST_RC inst),
     c12 = (if INST_CX_12 inst AND push_bit 11 1 \<noteq> 0 then INST_CX_12 inst OR 0xFFFFF000
            else INST_CX_12 inst),
     c16 = (if INST_CX_16 inst AND push_bit 15 1 \<noteq> 0 then INST_CX_16 inst OR 0xFFFF0000
            else INST_CX_16 inst),
     c24 = (if INST_CX_24 inst AND push_bit 23 1 \<noteq> 0 then INST_CX_24 inst OR 0xFF000000
            else INST_CX_24 inst)\<rparr>"

section \<open>What decoding computes\<close>

lemma and_mask_take_bit:
  "(x :: u32) AND 0xFFF = take_bit 12 x" "x AND 0xFFFF = take_bit 16 x"
  "x AND 0xFFFFFF = take_bit 24 x" "x AND 0xF = take_bit 4 x"
  by (simp_all add: take_bit_eq_mask mask_eq_exp_minus_1)

lemma and_push_bit_1:
  assumes "n < 32"
  shows "(x :: u32) AND push_bit n 1 \<noteq> 0 \<longleftrightarrow> bit x n"
proof -
  have "(x AND push_bit n 1) = (if bit x n then push_bit n 1 else 0)"
    by (rule bit_word_eqI) (auto simp: bit_simps)
  moreover have "push_bit n (1 :: u32) \<noteq> 0"
    using assms by (auto simp: bit_eq_iff bit_simps)
  ultimately show ?thesis by simp
qed

text \<open>Filling the high bits by the top bit of the field is the sign extension of the field.\<close>

lemma sign_extend_fill:
  assumes "n < 32" and "hi = push_bit n (- 1 :: u32)" and "0 < n"
  shows "(if take_bit n x AND push_bit (n - 1) 1 \<noteq> 0 then take_bit n x OR hi else take_bit n x)
    = signed_take_bit (n - 1) (x :: u32)"
proof -
  have n: "n - 1 < 32" using assms by simp
  show ?thesis
    unfolding and_push_bit_1 [OF n]
    by (rule bit_word_eqI)
      (use assms in \<open>auto simp: bit_simps min_def not_less le_less\<close>)
qed

lemma decode_imm:
  "c12 (decode inst) = signed_take_bit 11 inst"
  "c16 (decode inst) = signed_take_bit 15 inst"
  "c24 (decode inst) = signed_take_bit 23 inst"
proof -
  have m: "push_bit 12 (- 1 :: u32) = 0xFFFFF000" "push_bit 16 (- 1 :: u32) = 0xFFFF0000"
    "push_bit 24 (- 1 :: u32) = 0xFF000000"
    by (simp_all add: mask_eq_exp_minus_1)
  show "c12 (decode inst) = signed_take_bit 11 inst"
    using sign_extend_fill [of 12 "0xFFFFF000" inst] m
    by (auto simp: decode_def INST_CX_12_def and_mask_take_bit split: if_splits)
  show "c16 (decode inst) = signed_take_bit 15 inst"
    using sign_extend_fill [of 16 "0xFFFF0000" inst] m
    by (auto simp: decode_def INST_CX_16_def and_mask_take_bit split: if_splits)
  show "c24 (decode inst) = signed_take_bit 23 inst"
    using sign_extend_fill [of 24 "0xFF000000" inst] m
    by (auto simp: decode_def INST_CX_24_def and_mask_take_bit split: if_splits)
qed

lemma sint_signed_take_bit_u32:
  assumes "n < 32"
  shows "sint (signed_take_bit n (x :: u32)) = signed_take_bit n (sint x)"
  by (rule bit_eqI, cases "n = 31") (use assms in \<open>auto simp: bit_simps bit_sint_iff min_def\<close>)

end
