(* ===== verification/Api_Brk.thy ===== *)
theory Api_Brk
  imports Machine
begin

text \<open>
  The heap calls \<open>brk\<close> and \<open>sbrk\<close> of the host side, \<open>simulator/api/brk.c\<close>, and the clock
  call of \<open>simulator/api/std.c\<close>. A host call takes the machine and the state of the host and
  returns both; its C return value is always 0 and is not used by the caller.
\<close>

type_synonym 'w api = "'w host \<Rightarrow> nat \<Rightarrow> vm \<Rightarrow> 'w \<Rightarrow> (vm \<times> 'w) res"

definition set_brk :: "u64 \<Rightarrow> vm \<Rightarrow> vm" where
  "set_brk b v = v\<lparr>mem := (mem v)\<lparr>m_brk := b\<rparr>\<rparr>"

definition cpu0_brk :: "'w api" where
  "cpu0_brk h tid v w =
     res_bind (abi_func_param_n v tid 1) (\<lambda>addr.
       if m_end (mem v) \<le> m_start (mem v) + ucast addr
       then Inr (abi_func_set_return v (- 1), h_print h (ascii ''brk failed, no memory!'' @ [10]) w)
       else Inr (abi_func_set_return (set_brk (ucast addr) v) 0, w))"

definition cpu0_sbrk :: "'w api" where
  "cpu0_sbrk h tid v w =
     res_bind (abi_func_param_n v tid 1) (\<lambda>incr.
       if sint (m_end (mem v) - m_brk (mem v)) \<le> uint incr
       then Inr (abi_func_set_return v (- 1), h_print h (ascii ''sbrk failed, no memory!'' @ [10]) w)
       else
         (let addr = ucast (m_brk (mem v)) :: u32;
              v = set_brk (m_brk (mem v) + ucast incr) v
          in Inr (abi_func_set_return v addr, w)))"

definition cpu0_time :: "'w api" where
  "cpu0_time h tid v w =
     (case h_time h w of
        (timestamp, w) \<Rightarrow> Inr (abi_func_set_return v (ucast (timestamp AND 0xFFFFFFFF)), w))"

lemma set_brk_frame [frame_simps]:
  "cpu (set_brk b v) = cpu v" "elf (set_brk b v) = elf v" "threads (set_brk b v) = threads v"
  "entry (set_brk b v) = entry v" "stack_size (set_brk b v) = stack_size v"
  "param_count (set_brk b v) = param_count v" "m_start (mem (set_brk b v)) = m_start (mem v)"
  "m_end (mem (set_brk b v)) = m_end (mem v)" "m_data (mem (set_brk b v)) = m_data (mem v)"
  "m_brk (mem (set_brk b v)) = b"
  by (simp_all add: set_brk_def)

lemma get_gpr_set_brk [simp]: "get_gpr n (set_brk b v) = get_gpr n v"
  by (simp add: get_gpr_def set_brk_def)

lemma get_cpr_set_brk [simp]: "get_cpr n (set_brk b v) = get_cpr n v"
  by (simp add: get_cpr_def set_brk_def)

end
