(* ===== verification/Api_File.thy ===== *)
theory Api_File
  imports Api_Brk
begin

text \<open>
  The file calls of the host side, \<open>simulator/api/file.c\<close>: each reads its parameters, turns
  the guest's flags into the host's, calls the host and stores the result for the guest. The
  host's constants are those of \<open>fcntl.h\<close> and \<open>unistd.h\<close> on Linux.
\<close>

definition F_O_RDONLY :: u32 where "F_O_RDONLY = 1"
definition F_O_WRONLY :: u32 where "F_O_WRONLY = 2"
definition F_O_RDWR :: u32 where "F_O_RDWR = 3"
definition F_O_CREAT :: u32 where "F_O_CREAT = 4"
definition F_SEEK_SET :: u32 where "F_SEEK_SET = 0"
definition F_SEEK_END :: u32 where "F_SEEK_END = 1"
definition F_SEEK_CUR :: u32 where "F_SEEK_CUR = 2"

definition O_RDONLY :: u32 where "O_RDONLY = 0"
definition O_WRONLY :: u32 where "O_WRONLY = 1"
definition O_RDWR :: u32 where "O_RDWR = 2"
definition O_CREAT :: u32 where "O_CREAT = 64"
definition SEEK_SET :: u32 where "SEEK_SET = 0"
definition SEEK_CUR :: u32 where "SEEK_CUR = 1"
definition SEEK_END :: u32 where "SEEK_END = 2"

lemmas flag_defs = F_O_RDONLY_def F_O_WRONLY_def F_O_RDWR_def F_O_CREAT_def
  F_SEEK_SET_def F_SEEK_END_def F_SEEK_CUR_def
  O_RDONLY_def O_WRONLY_def O_RDWR_def O_CREAT_def SEEK_SET_def SEEK_CUR_def SEEK_END_def

text \<open>\<open>cpu0_open\<close>: \<open>ret\<close> is assigned only in the default branch of the switch, yet tested
  after it; \<open>h_uninit\<close> is what it holds otherwise. The pair is \<open>(plt_flag, ret)\<close>.\<close>

definition open_flags :: "u32 \<Rightarrow> u32 \<Rightarrow> u32 \<times> u32" where
  "open_flags flag ret =
     (let k = flag AND 3 in
      if k = F_O_RDONLY then (O_RDONLY, ret)
      else if k = F_O_WRONLY then (O_WRONLY, ret)
      else if k = F_O_RDWR then (O_RDWR, ret)
      else (0, - 1))"

definition cpu0_open :: "'w api" where
  "cpu0_open h tid v w =
     res_bind (abi_func_param_n v tid 1) (\<lambda>filename_n.
     res_bind (abi_func_param_n v tid 2) (\<lambda>flag.
       (case open_flags flag (h_uninit h w) of
          (plt_flag, ret) \<Rightarrow>
            if sint ret < 0 then Inr (abi_func_set_return v ret, w)
            else
              res_bind (mem_cstr (ABI_PARAM_TO_ADDR filename_n) v) (\<lambda>filename.
                case h_open h filename (if flag AND 4 \<noteq> 0 then plt_flag OR O_CREAT else plt_flag) w of
                  (ret, w) \<Rightarrow> Inr (abi_func_set_return v ret, w)))))"

text \<open>The bytes the host stored through a guest buffer.\<close>

definition mem_write_bytes :: "int \<Rightarrow> byte list \<Rightarrow> vm \<Rightarrow> vm res" where
  "mem_write_bytes off bs v =
     (if bs = [] then Inr v
      else if in_mem v off (length bs)
      then Inr (v\<lparr>mem := (mem v)\<lparr>m_data := store_bytes (m_data (mem v)) (nat off) bs\<rparr>\<rparr>)
      else Inl (MemFault off))"

definition cpu0_read :: "'w api" where
  "cpu0_read h tid v w =
     res_bind (abi_func_param_n v tid 1) (\<lambda>fd.
     res_bind (abi_func_param_n v tid 2) (\<lambda>bufv.
     res_bind (abi_func_param_n v tid 3) (\<lambda>sz.
       (case h_read h fd (scast sz) w of
          ((ret, bs), w) \<Rightarrow>
            res_bind (mem_write_bytes (ABI_PARAM_TO_ADDR bufv) bs v) (\<lambda>v.
              Inr (abi_func_set_return v (ucast ret), w))))))"

definition cpu0_write :: "'w api" where
  "cpu0_write h tid v w =
     res_bind (abi_func_param_n v tid 1) (\<lambda>fd.
     res_bind (abi_func_param_n v tid 2) (\<lambda>bufv.
     res_bind (abi_func_param_n v tid 3) (\<lambda>sz.
       (let off = ABI_PARAM_TO_ADDR bufv; n = unat (scast sz :: u64) in
        if in_mem v off n then
          (case h_write h fd (load_bytes (m_data (mem v)) (nat off) n) w of
             (ret, w) \<Rightarrow> Inr (abi_func_set_return v (ucast ret), w))
        else Inl (MemFault off)))))"

definition cpu0_close :: "'w api" where
  "cpu0_close h tid v w =
     res_bind (abi_func_param_n v tid 1) (\<lambda>fd.
       (case h_close h fd w of (ret, w) \<Rightarrow> Inr (abi_func_set_return v ret, w)))"

definition plt_whence :: "u32 \<Rightarrow> u32" where
  "plt_whence whence =
     (if whence = F_SEEK_SET then SEEK_SET
      else if whence = F_SEEK_END then SEEK_END
      else if whence = F_SEEK_CUR then SEEK_CUR
      else whence)"

definition cpu0_lseek :: "'w api" where
  "cpu0_lseek h tid v w =
     res_bind (abi_func_param_n v tid 1) (\<lambda>fd.
     res_bind (abi_func_param_n v tid 2) (\<lambda>offset.
     res_bind (abi_func_param_n v tid 3) (\<lambda>whence.
       (case h_lseek h fd (scast offset) (plt_whence whence) w of
          (ret, w) \<Rightarrow> Inr (abi_func_set_return v (ucast ret), w)))))"

lemma mem_write_bytes_frame:
  "mem_write_bytes off bs v = Inr v' \<Longrightarrow>
     cpu v' = cpu v \<and> elf v' = elf v \<and> threads v' = threads v \<and> entry v' = entry v \<and>
     stack_size v' = stack_size v \<and> param_count v' = param_count v \<and>
     m_start (mem v') = m_start (mem v) \<and> m_end (mem v') = m_end (mem v) \<and>
     m_brk (mem v') = m_brk (mem v)"
  by (auto simp: mem_write_bytes_def split: if_splits)

end
