(* ===== verification/Api_Printf.thy ===== *)
theory Api_Printf
  imports Api_Brk
begin

text \<open>
  The formatted output of the host side, \<open>simulator/api/printf.c\<close>: the loop over the format
  string, the conversions it hands to \<open>snprintf\<close>, and the call of \<open>puts\<close>.
\<close>

section \<open>The conversions of snprintf\<close>

fun digits :: "nat \<Rightarrow> nat \<Rightarrow> nat list" where
  "digits b n = (if n < b \<or> b \<le> 1 then [n] else digits b (n div b) @ [n mod b])"

declare digits.simps [simp del]

definition digit_char :: "bool \<Rightarrow> nat \<Rightarrow> byte" where
  "digit_char upper d = (if d < 10 then of_nat (48 + d) else of_nat ((if upper then 55 else 87) + d))"

definition fmt_unsigned :: "nat \<Rightarrow> bool \<Rightarrow> nat \<Rightarrow> byte list" where
  "fmt_unsigned b upper n = map (digit_char upper) (digits b n)"

definition fmt_d :: "u32 \<Rightarrow> byte list" where
  "fmt_d x = (if sint x < 0 then 0x2D # fmt_unsigned 10 False (nat (- sint x))
              else fmt_unsigned 10 False (nat (sint x)))"

definition fmt_x :: "u32 \<Rightarrow> byte list" where
  "fmt_x x = fmt_unsigned 16 False (unat x)"

definition fmt_X :: "u32 \<Rightarrow> byte list" where
  "fmt_X x = fmt_unsigned 16 True (unat x)"

definition fmt_c :: "u32 \<Rightarrow> byte list" where
  "fmt_c x = [ucast x]"

definition MAX_CACHE_BUFF_SIZE :: nat where "MAX_CACHE_BUFF_SIZE = 4096"

text \<open>\<open>snprintf(&buf[n], sizeof(buf) - n, \<dots>)\<close>: the text, cut to the room left, and a NUL.\<close>

definition snprintf_at :: "byte list \<Rightarrow> nat \<Rightarrow> byte list \<Rightarrow> byte list" where
  "snprintf_at buf n text =
     (let room = MAX_CACHE_BUFF_SIZE - n; out = take (room - 1) text @ [0] in
      if room = 0 then buf else take n buf @ out @ drop (n + length out) buf)"

text \<open>The \<open>switch (t)\<close>: the text of a supported conversion, \<open>None\<close> for the default case.\<close>

definition conversion :: "byte \<Rightarrow> u32 \<Rightarrow> vm \<Rightarrow> byte list option res" where
  "conversion t arg v =
     (if t = 0x64 then Inr (Some (fmt_d arg))
      else if t = 0x78 then Inr (Some (fmt_x arg))
      else if t = 0x58 then Inr (Some (fmt_X arg))
      else if t = 0x73 then res_bind (mem_cstr (ABI_PARAM_TO_ADDR arg) v) (\<lambda>s. Inr (Some s))
      else if t = 0x63 then Inr (Some (fmt_c arg))
      else Inr None)"

section \<open>cpu0_printf\<close>

definition mem_byte :: "nat \<Rightarrow> vm \<Rightarrow> byte res" where
  "mem_byte p v = (if p < vm_size v then Inr (m_data (mem v) p) else Inl (MemFault (int p)))"

text \<open>
  \<open>while (n < (s32_t)(sizeof(buf) && *p))\<close>: the bound is the truth value of \<open>*p\<close>, 0 or 1.
\<close>

function printf_loop ::
  "'w host \<Rightarrow> vm \<Rightarrow> nat \<Rightarrow> byte list \<Rightarrow> nat \<Rightarrow> nat \<Rightarrow> u32 \<Rightarrow> 'w
     \<Rightarrow> (byte list \<times> nat \<times> 'w) res" where
  "printf_loop h v tid buf n p param_idx w =
     (case mem_byte p v of
        Inl e \<Rightarrow> Inl e
      | Inr c \<Rightarrow>
          if n < (if c \<noteq> 0 then 1 else 0) then
            if c = 0x25 then
              (case mem_byte (p + 1) v of
                 Inl e \<Rightarrow> Inl e
               | Inr t \<Rightarrow>
                  (case abi_func_param_n v tid (param_idx + 1) of
                     Inl e \<Rightarrow> Inl e
                   | Inr arg \<Rightarrow>
                      (case conversion t arg v of
                         Inl e \<Rightarrow> Inl e
                       | Inr (Some text) \<Rightarrow>
                           printf_loop h v tid (snprintf_at buf n text) (n + length text) (p + 2)
                             (param_idx + 1) w
                       | Inr None \<Rightarrow>
                           printf_loop h v tid buf n (p + 2) (param_idx + 1)
                             (h_print h (ascii ''not supported printf format '' @ [t, 10]) w))))
            else printf_loop h v tid (buf[n := c]) (n + 1) (p + 1) param_idx w
          else Inr (buf, n, w))"
  by pat_completeness auto
termination
  by (relation "measure (\<lambda>(h, v, tid, buf, n, p, param_idx, w). vm_size v - p)")
    (auto simp: mem_byte_def split: if_splits)

declare printf_loop.simps [simp del]

definition cpu0_printf :: "'w api" where
  "cpu0_printf h tid v w =
     res_bind (abi_func_param_n v tid 1) (\<lambda>arg.
     res_bind (printf_loop h v tid (replicate MAX_CACHE_BUFF_SIZE (ucast (h_uninit h w))) 0
                 (nat (ABI_PARAM_TO_ADDR arg)) 1 w) (\<lambda>(buf, n, w).
       if 1 \<le> n \<and> n \<le> MAX_CACHE_BUFF_SIZE then
         (case h_puts h (takeWhile (\<lambda>b. b \<noteq> 0) (buf[n - 1 := 0])) w of
            (ret, w) \<Rightarrow> Inr (abi_func_set_return v ret, w))
       else Inl (IndexFault (int n - 1))))"

end
