(* ===== verification/Api.thy ===== *)
theory Api
  imports Api_File Api_Printf
begin

text \<open>
  The table of host calls, \<open>simulator/api/api.h\<close> and \<open>simulator/api/api.c\<close>, and the
  indirect call \<open>api_func[c16](vm, tid)\<close> of the \<open>SSC\<close> instruction.
\<close>

definition API_ID_MIN :: int where "API_ID_MIN = 0"
definition API_ID_PRINTF :: int where "API_ID_PRINTF = 1"
definition API_ID_BRK :: int where "API_ID_BRK = 2"
definition API_ID_SBRK :: int where "API_ID_SBRK = 3"
definition API_ID_OPEN :: int where "API_ID_OPEN = 4"
definition API_ID_READ :: int where "API_ID_READ = 5"
definition API_ID_WRITE :: int where "API_ID_WRITE = 6"
definition API_ID_CLOSE :: int where "API_ID_CLOSE = 7"
definition API_ID_LSEEK :: int where "API_ID_LSEEK = 8"
definition API_ID_TIME :: int where "API_ID_TIME = 9"
definition API_ID_MAX :: int where "API_ID_MAX = 10"

lemmas api_id_defs = API_ID_MIN_def API_ID_PRINTF_def API_ID_BRK_def API_ID_SBRK_def
  API_ID_OPEN_def API_ID_READ_def API_ID_WRITE_def API_ID_CLOSE_def API_ID_LSEEK_def
  API_ID_TIME_def API_ID_MAX_def

definition api_func :: "(int \<times> 'w api option) list" where
  "api_func =
    [(API_ID_MIN, None),
     (API_ID_PRINTF, Some cpu0_printf),
     (API_ID_BRK, Some cpu0_brk),
     (API_ID_SBRK, Some cpu0_sbrk),
     (API_ID_OPEN, Some cpu0_open),
     (API_ID_READ, Some cpu0_read),
     (API_ID_WRITE, Some cpu0_write),
     (API_ID_CLOSE, Some cpu0_close),
     (API_ID_LSEEK, Some cpu0_lseek),
     (API_ID_TIME, Some cpu0_time),
     (API_ID_MAX, None)]"

text \<open>No entry (an index out of the array) and a NULL entry are both calls into nowhere.\<close>

definition call_api :: "int \<Rightarrow> 'w api" where
  "call_api i h tid v w =
     (case map_of api_func i of
        Some (Some f) \<Rightarrow> f h tid v w
      | _ \<Rightarrow> Inl (ApiFault i))"

end
