(* ===== verification/Cpu.thy ===== *)
theory Cpu
  imports Inst Api "HOL-Library.Signed_Division"
begin

text \<open>
  The interpreter \<open>run_loop\<close> of \<open>simulator/cpu.c\<close>: one definition per \<open>case\<close> of its switch,
  in the code's order, the switch itself, one turn of the loop and the loop. A handler takes
  the decoded operands and the machine whose program counter already points to the next
  instruction.
\<close>

section \<open>Loads and stores\<close>

text \<open>The address \<open>base + REG_GPR(cc, rb) + c16\<close>: two signed additions to a host pointer.\<close>

definition ea :: "operands \<Rightarrow> vm \<Rightarrow> int" where
  "ea d v = sint (get_gpr (rb d) v) + sint (c16 d)"

definition exec_LD :: "operands \<Rightarrow> vm \<Rightarrow> vm res" where
  "exec_LD d v = res_bind (mem_read 4 (ea d v) v) (\<lambda>x. Inr (set_gpr (ra d) (of_nat x) v))"

definition exec_ST :: "operands \<Rightarrow> vm \<Rightarrow> vm res" where
  "exec_ST d v = mem_write 4 (ea d v) (unat (get_gpr (ra d) v)) v"

definition exec_LB :: "operands \<Rightarrow> vm \<Rightarrow> vm res" where
  "exec_LB d v = res_bind (mem_read 1 (ea d v) v)
     (\<lambda>x. Inr (set_gpr (ra d) (scast (of_nat x :: byte)) v))"

definition exec_LBU :: "operands \<Rightarrow> vm \<Rightarrow> vm res" where
  "exec_LBU d v = res_bind (mem_read 1 (ea d v) v)
     (\<lambda>x. Inr (set_gpr (ra d) (ucast (of_nat x :: byte)) v))"

definition exec_SB :: "operands \<Rightarrow> vm \<Rightarrow> vm res" where
  "exec_SB d v = mem_write 1 (ea d v) (unat (get_gpr (ra d) v AND 0xFF)) v"

definition exec_LH :: "operands \<Rightarrow> vm \<Rightarrow> vm res" where
  "exec_LH d v = res_bind (mem_read 2 (ea d v) v)
     (\<lambda>x. Inr (set_gpr (ra d) (scast (of_nat x :: u16)) v))"

definition exec_LHU :: "operands \<Rightarrow> vm \<Rightarrow> vm res" where
  "exec_LHU d v = res_bind (mem_read 2 (ea d v) v)
     (\<lambda>x. Inr (set_gpr (ra d) (ucast (of_nat x :: u16)) v))"

definition exec_SH :: "operands \<Rightarrow> vm \<Rightarrow> vm res" where
  "exec_SH d v = mem_write 2 (ea d v) (unat (get_gpr (ra d) v AND 0xFFFF)) v"

section \<open>Immediates, moves and comparisons\<close>

definition exec_ADDIU :: "operands \<Rightarrow> vm \<Rightarrow> vm" where
  "exec_ADDIU d v = set_gpr (ra d) (get_gpr (rb d) v + c16 d) v"

definition exec_MOVZ :: "operands \<Rightarrow> vm \<Rightarrow> vm" where
  "exec_MOVZ d v = (if get_gpr (rc d) v = 0 then set_gpr (ra d) (get_gpr (rb d) v) v else v)"

definition exec_MOVN :: "operands \<Rightarrow> vm \<Rightarrow> vm" where
  "exec_MOVN d v = (if get_gpr (rc d) v \<noteq> 0 then set_gpr (ra d) (get_gpr (rb d) v) v else v)"

definition exec_ANDI :: "operands \<Rightarrow> vm \<Rightarrow> vm" where
  "exec_ANDI d v = set_gpr (ra d) (get_gpr (rb d) v AND (c16 d AND 0xFFFF)) v"

definition exec_ORI :: "operands \<Rightarrow> vm \<Rightarrow> vm" where
  "exec_ORI d v = set_gpr (ra d) (get_gpr (rb d) v OR (c16 d AND 0xFFFF)) v"

definition exec_XORI :: "operands \<Rightarrow> vm \<Rightarrow> vm" where
  "exec_XORI d v = set_gpr (ra d) (get_gpr (rb d) v XOR (c16 d AND 0xFFFF)) v"

definition exec_LUI :: "operands \<Rightarrow> vm \<Rightarrow> vm" where
  "exec_LUI d v = set_gpr (ra d) (push_bit 16 (c16 d AND 0xFFFF)) v"

definition exec_SLTI :: "operands \<Rightarrow> vm \<Rightarrow> vm" where
  "exec_SLTI d v = set_gpr (ra d) (if sint (get_gpr (rb d) v) < sint (c16 d) then 1 else 0) v"

definition exec_SLTIU :: "operands \<Rightarrow> vm \<Rightarrow> vm" where
  "exec_SLTIU d v = set_gpr (ra d) (if get_gpr (rb d) v < c16 d then 1 else 0) v"

definition exec_SLT :: "operands \<Rightarrow> vm \<Rightarrow> vm" where
  "exec_SLT d v =
     set_gpr (ra d) (if sint (get_gpr (rb d) v) < sint (get_gpr (rc d) v) then 1 else 0) v"

definition exec_SLTU :: "operands \<Rightarrow> vm \<Rightarrow> vm" where
  "exec_SLTU d v = set_gpr (ra d) (if get_gpr (rb d) v < get_gpr (rc d) v then 1 else 0) v"

definition exec_BEQ :: "operands \<Rightarrow> vm \<Rightarrow> vm" where
  "exec_BEQ d v =
     (if get_gpr (ra d) v = get_gpr (rb d) v then set_cpr PC (get_cpr PC v + c16 d) v else v)"

definition exec_BNE :: "operands \<Rightarrow> vm \<Rightarrow> vm" where
  "exec_BNE d v =
     (if get_gpr (ra d) v \<noteq> get_gpr (rb d) v then set_cpr PC (get_cpr PC v + c16 d) v else v)"

definition exec_BAL :: "operands \<Rightarrow> nat \<Rightarrow> vm \<Rightarrow> vm" where
  "exec_BAL d tid v =
     (let v = set_gpr LR (get_cpr PC v) v;
          v = set_cpr PC (get_cpr PC v + c24 d) v
      in set_prev_sp tid (get_gpr SP v) v)"

section \<open>The status word\<close>

definition SW_N :: nat where "SW_N = 0"
definition SW_Z :: nat where "SW_Z = 1"
definition SW_C :: nat where "SW_C = 2"
definition SW_V :: nat where "SW_V = 3"

lemmas sw_defs = SW_N_def SW_Z_def SW_C_def SW_V_def

definition sw_get :: "nat \<Rightarrow> vm \<Rightarrow> bool" where
  "sw_get n v \<longleftrightarrow> get_gpr SW v AND push_bit n 1 \<noteq> 0"

definition sw_set :: "nat \<Rightarrow> vm \<Rightarrow> vm" where
  "sw_set n v = set_gpr SW (get_gpr SW v OR push_bit n 1) v"

definition sw_clear :: "nat \<Rightarrow> vm \<Rightarrow> vm" where
  "sw_clear n v = set_gpr SW (get_gpr SW v AND NOT (push_bit n 1)) v"

definition exec_CMP :: "operands \<Rightarrow> vm \<Rightarrow> vm" where
  "exec_CMP d v =
     (let t = sint (get_gpr (ra d) v - get_gpr (rb d) v);
          v = (if 0 < t then sw_clear SW_Z (sw_clear SW_N v) else v);
          v = (if t = 0 then sw_set SW_Z (sw_clear SW_N v) else v);
          v = (if t < 0 then sw_clear SW_Z (sw_set SW_N v) else v)
      in v)"

section \<open>Arithmetic\<close>

text \<open>\<open>ull_t t = REG_GPR(cc, rb) + REG_GPR(cc, rc)\<close>: an \<open>int\<close> sum, then sign-extended.\<close>

definition exec_ADD :: "operands \<Rightarrow> vm \<Rightarrow> vm" where
  "exec_ADD d v =
     (let t = scast (get_gpr (rb d) v + get_gpr (rc d) v) :: u64;
          v = (if 0xFFFFFFFF < t then sw_set SW_V v else v)
      in set_gpr (ra d) (ucast (t AND 0xFFFFFFFF)) v)"

definition exec_ADDU :: "operands \<Rightarrow> vm \<Rightarrow> vm" where
  "exec_ADDU d v = set_gpr (ra d) (get_gpr (rb d) v + get_gpr (rc d) v) v"

definition exec_SUB :: "operands \<Rightarrow> vm \<Rightarrow> vm" where
  "exec_SUB d v = set_gpr (ra d) (get_gpr (rb d) v - get_gpr (rc d) v) v"

text \<open>
  \<open>for (i = 0; (i < 32) && (n & m); i++) n <<= 1;\<close> where the mask \<open>m\<close> is a comparison:
  in C \<open>==\<close> binds tighter than \<open>&\<close>, so \<open>n & 0x80000000 == 0\<close> is \<open>n & (0x80000000 == 0)\<close>.
\<close>

function shift_out :: "u32 \<Rightarrow> nat \<Rightarrow> u32 \<Rightarrow> nat" where
  "shift_out m i n = (if i < 32 \<and> n AND m \<noteq> 0 then shift_out m (i + 1) (push_bit 1 n) else i)"
  by pat_completeness auto
termination
  by (relation "measure (\<lambda>(m, i, n). 32 - i)") auto

declare shift_out.simps [simp del]

definition exec_CLZ :: "operands \<Rightarrow> vm \<Rightarrow> vm" where
  "exec_CLZ d v =
     set_gpr (ra d) (of_nat (shift_out (if (0x80000000 :: u32) = 0 then 1 else 0) 0 (get_gpr (rb d) v))) v"

definition exec_CLO :: "operands \<Rightarrow> vm \<Rightarrow> vm" where
  "exec_CLO d v =
     set_gpr (ra d)
       (of_nat (shift_out (if (0x80000000 :: u32) = 0x80000000 then 1 else 0) 0 (get_gpr (rb d) v))) v"

definition exec_SUBU :: "operands \<Rightarrow> vm \<Rightarrow> vm" where
  "exec_SUBU d v = set_gpr (ra d) (get_gpr (rb d) v - get_gpr (rc d) v) v"

definition exec_MUL :: "operands \<Rightarrow> vm \<Rightarrow> vm" where
  "exec_MUL d v =
     (let t = scast (get_gpr (rb d) v * get_gpr (rc d) v) :: u64;
          v = (if 0xFFFFFFFF < t then sw_set SW_V v else v)
      in set_gpr (ra d) (ucast (t AND 0xFFFFFFFF)) v)"

definition exec_AND :: "operands \<Rightarrow> vm \<Rightarrow> vm" where
  "exec_AND d v = set_gpr (ra d) (get_gpr (rb d) v AND get_gpr (rc d) v) v"

definition exec_OR :: "operands \<Rightarrow> vm \<Rightarrow> vm" where
  "exec_OR d v = set_gpr (ra d) (get_gpr (rb d) v OR get_gpr (rc d) v) v"

definition exec_XOR :: "operands \<Rightarrow> vm \<Rightarrow> vm" where
  "exec_XOR d v = set_gpr (ra d) (get_gpr (rb d) v XOR get_gpr (rc d) v) v"

section \<open>Rotations and shifts\<close>

text \<open>\<open>ROL32\<close> and \<open>ROR32\<close> shift by \<open>n\<close> and by \<open>32 - n\<close>: both counts must be below 32.\<close>

definition ROL32 :: "u32 \<Rightarrow> u32 \<Rightarrow> u32 res" where
  "ROL32 x n =
     (if n < 32 \<and> 32 - n < 32
      then Inr (push_bit (unat n) x OR drop_bit (unat (32 - n)) x) else Inl ShiftFault)"

definition ROR32 :: "u32 \<Rightarrow> u32 \<Rightarrow> u32 res" where
  "ROR32 x n =
     (if n < 32 \<and> 32 - n < 32
      then Inr (drop_bit (unat n) x OR push_bit (unat (32 - n)) x) else Inl ShiftFault)"

definition exec_ROLI :: "operands \<Rightarrow> vm \<Rightarrow> vm res" where
  "exec_ROLI d v =
     res_bind (ROL32 (get_gpr (rb d) v) (c12 d AND 0xFFF)) (\<lambda>x. Inr (set_gpr (ra d) x v))"

definition exec_RORI :: "operands \<Rightarrow> vm \<Rightarrow> vm res" where
  "exec_RORI d v =
     res_bind (ROR32 (get_gpr (rb d) v) (c12 d AND 0xFFF)) (\<lambda>x. Inr (set_gpr (ra d) x v))"

text \<open>A shift whose count is an \<open>int\<close>.\<close>

definition shift_by :: "(nat \<Rightarrow> u32 \<Rightarrow> u32) \<Rightarrow> u32 \<Rightarrow> u32 \<Rightarrow> u32 res" where
  "shift_by sh n x = (if 0 \<le> sint n \<and> sint n < 32 then Inr (sh (unat n) x) else Inl ShiftFault)"

definition exec_SRA :: "operands \<Rightarrow> vm \<Rightarrow> vm res" where
  "exec_SRA d v =
     res_bind (shift_by signed_drop_bit (c12 d AND 0xFFF) (get_gpr (rb d) v))
       (\<lambda>x. Inr (set_gpr (ra d) ((get_gpr (rb d) v AND 0x80000000) OR x) v))"

definition exec_SHL :: "operands \<Rightarrow> vm \<Rightarrow> vm res" where
  "exec_SHL d v =
     res_bind (shift_by push_bit (c12 d AND 0xFFF) (get_gpr (rb d) v)) (\<lambda>x. Inr (set_gpr (ra d) x v))"

definition exec_SHR :: "operands \<Rightarrow> vm \<Rightarrow> vm res" where
  "exec_SHR d v =
     res_bind (shift_by drop_bit (c12 d AND 0xFFF) (get_gpr (rb d) v)) (\<lambda>x. Inr (set_gpr (ra d) x v))"

definition exec_SRAV :: "operands \<Rightarrow> vm \<Rightarrow> vm res" where
  "exec_SRAV d v =
     res_bind (shift_by signed_drop_bit (get_gpr (rc d) v) (get_gpr (rb d) v))
       (\<lambda>x. Inr (set_gpr (ra d) ((get_gpr (rb d) v AND 0x80000000) OR x) v))"

definition exec_SHLV :: "operands \<Rightarrow> vm \<Rightarrow> vm res" where
  "exec_SHLV d v =
     res_bind (shift_by push_bit (get_gpr (rc d) v) (get_gpr (rb d) v)) (\<lambda>x. Inr (set_gpr (ra d) x v))"

definition exec_SHRV :: "operands \<Rightarrow> vm \<Rightarrow> vm res" where
  "exec_SHRV d v =
     res_bind (shift_by drop_bit (get_gpr (rc d) v) (get_gpr (rb d) v)) (\<lambda>x. Inr (set_gpr (ra d) x v))"

definition exec_ROL :: "operands \<Rightarrow> vm \<Rightarrow> vm res" where
  "exec_ROL d v =
     res_bind (ROL32 (get_gpr (rb d) v) (get_gpr (rc d) v)) (\<lambda>x. Inr (set_gpr (ra d) x v))"

definition exec_ROR :: "operands \<Rightarrow> vm \<Rightarrow> vm res" where
  "exec_ROR d v =
     res_bind (ROR32 (get_gpr (rb d) v) (get_gpr (rc d) v)) (\<lambda>x. Inr (set_gpr (ra d) x v))"

section \<open>Jumps\<close>

definition jump_rel :: "operands \<Rightarrow> vm \<Rightarrow> vm" where
  "jump_rel d v = set_cpr PC (get_cpr PC v + c24 d) v"

definition exec_JEQ :: "operands \<Rightarrow> vm \<Rightarrow> vm" where
  "exec_JEQ d v = (if \<not> sw_get SW_N v \<and> sw_get SW_Z v then jump_rel d v else v)"

definition exec_JNE :: "operands \<Rightarrow> vm \<Rightarrow> vm" where
  "exec_JNE d v = (if \<not> sw_get SW_Z v then jump_rel d v else v)"

definition exec_JLT :: "operands \<Rightarrow> vm \<Rightarrow> vm" where
  "exec_JLT d v = (if sw_get SW_N v \<and> \<not> sw_get SW_Z v then jump_rel d v else v)"

definition exec_JGT :: "operands \<Rightarrow> vm \<Rightarrow> vm" where
  "exec_JGT d v = (if \<not> sw_get SW_N v \<and> \<not> sw_get SW_Z v then jump_rel d v else v)"

definition exec_JLE :: "operands \<Rightarrow> vm \<Rightarrow> vm" where
  "exec_JLE d v = (if sw_get SW_N v \<or> sw_get SW_Z v then jump_rel d v else v)"

definition exec_JGE :: "operands \<Rightarrow> vm \<Rightarrow> vm" where
  "exec_JGE d v = (if \<not> sw_get SW_N v \<or> sw_get SW_Z v then jump_rel d v else v)"

definition exec_JMP :: "operands \<Rightarrow> vm \<Rightarrow> vm" where
  "exec_JMP d v = jump_rel d v"

definition exec_JALR :: "operands \<Rightarrow> nat \<Rightarrow> vm \<Rightarrow> vm" where
  "exec_JALR d tid v =
     (let v = set_gpr LR (get_cpr PC v) v;
          v = set_cpr PC (get_gpr (rb d) v) v
      in set_prev_sp tid (get_gpr SP v) v)"

definition exec_JSUB :: "operands \<Rightarrow> nat \<Rightarrow> vm \<Rightarrow> vm" where
  "exec_JSUB d tid v =
     (let v = set_gpr LR (get_cpr PC v) v;
          v = jump_rel d v
      in set_prev_sp tid (get_gpr SP v) v)"

definition exec_JR_RET :: "vm \<Rightarrow> vm" where
  "exec_JR_RET v = set_cpr PC (get_gpr LR v) v"

section \<open>HI and LO\<close>

text \<open>Both products are 32-bit products; only then are they widened.\<close>

definition exec_MULT :: "operands \<Rightarrow> vm \<Rightarrow> vm" where
  "exec_MULT d v =
     (let t = scast (get_gpr (ra d) v * get_gpr (rb d) v) :: u64
      in set_cpr LO (ucast (t AND 0xFFFFFFFF)) (set_cpr HI (ucast (signed_drop_bit 32 t)) v))"

definition exec_MULTU :: "operands \<Rightarrow> vm \<Rightarrow> vm" where
  "exec_MULTU d v =
     (let t = ucast (get_gpr (ra d) v * get_gpr (rb d) v) :: u64
      in set_cpr LO (ucast (t AND 0xFFFFFFFF)) (set_cpr HI (ucast (drop_bit 32 t)) v))"

definition exec_DIV :: "operands \<Rightarrow> vm \<Rightarrow> vm res" where
  "exec_DIV d v =
     (let a = sint (get_gpr (ra d) v); b = sint (get_gpr (rb d) v) in
      if b = 0 \<or> (a = - 2147483648 \<and> b = - 1) then Inl DivFault
      else Inr (set_cpr LO (word_of_int (a sdiv b)) (set_cpr HI (word_of_int (a smod b)) v)))"

definition exec_DIVU :: "operands \<Rightarrow> vm \<Rightarrow> vm res" where
  "exec_DIVU d v =
     (let a = get_gpr (ra d) v; b = get_gpr (rb d) v in
      if b = 0 then Inl DivFault
      else Inr (set_cpr LO (a div b) (set_cpr HI (a mod b) v)))"

definition exec_MFHI :: "operands \<Rightarrow> vm \<Rightarrow> vm" where
  "exec_MFHI d v = set_gpr (ra d) (get_cpr HI v) v"

definition exec_MFLO :: "operands \<Rightarrow> vm \<Rightarrow> vm" where
  "exec_MFLO d v = set_gpr (ra d) (get_cpr LO v) v"

definition exec_MTHI :: "operands \<Rightarrow> vm \<Rightarrow> vm" where
  "exec_MTHI d v = set_cpr HI (get_gpr (ra d) v) v"

definition exec_MTLO :: "operands \<Rightarrow> vm \<Rightarrow> vm" where
  "exec_MTLO d v = set_cpr LO (get_gpr (rb d) v) v"

section \<open>Coprocessor moves\<close>

text \<open>The register fields have four bits, the coprocessor \<open>CPR_COUNT\<close> registers.\<close>

definition exec_MFC0 :: "operands \<Rightarrow> vm \<Rightarrow> vm res" where
  "exec_MFC0 d v =
     (if rb d < CPR_COUNT then Inr (set_gpr (ra d) (get_cpr (rb d) v) v) else Inl (RegFault (rb d)))"

definition exec_MTC0 :: "operands \<Rightarrow> vm \<Rightarrow> vm res" where
  "exec_MTC0 d v =
     (if ra d < CPR_COUNT then Inr (set_cpr (ra d) (get_gpr (rb d) v) v) else Inl (RegFault (ra d)))"

text \<open>\<open>REG_C0R(cc, rb)\<close> with the core in place of the coprocessor reads a general register.\<close>

definition exec_C0MOV :: "operands \<Rightarrow> vm \<Rightarrow> vm res" where
  "exec_C0MOV d v =
     (if ra d < CPR_COUNT then Inr (set_cpr (ra d) (get_gpr (rb d) v) v) else Inl (RegFault (ra d)))"

section \<open>The switch\<close>

text \<open>One row per \<open>case\<close>; \<open>SSC\<close>, which also changes the host, is apart.\<close>

type_synonym handler = "operands \<Rightarrow> nat \<Rightarrow> vm \<Rightarrow> vm res"

definition pure :: "(operands \<Rightarrow> vm \<Rightarrow> vm) \<Rightarrow> handler" where
  "pure f = (\<lambda>d tid v. Inr (f d v))"

definition pure_t :: "(operands \<Rightarrow> nat \<Rightarrow> vm \<Rightarrow> vm) \<Rightarrow> handler" where
  "pure_t f = (\<lambda>d tid v. Inr (f d tid v))"

definition may_fail :: "(operands \<Rightarrow> vm \<Rightarrow> vm res) \<Rightarrow> handler" where
  "may_fail f = (\<lambda>d tid v. f d v)"

definition switch_table :: "(u32 \<times> handler) list" where
  "switch_table =
    [(OPC_NOP, pure (\<lambda>d v. v)),
     (OPC_LD, may_fail exec_LD),
     (OPC_ST, may_fail exec_ST),
     (OPC_LB, may_fail exec_LB),
     (OPC_LBU, may_fail exec_LBU),
     (OPC_SB, may_fail exec_SB),
     (OPC_LH, may_fail exec_LH),
     (OPC_LHU, may_fail exec_LHU),
     (OPC_SH, may_fail exec_SH),
     (OPC_ADDIU, pure exec_ADDIU),
     (OPC_MOVZ, pure exec_MOVZ),
     (OPC_MOVN, pure exec_MOVN),
     (OPC_ANDI, pure exec_ANDI),
     (OPC_ORI, pure exec_ORI),
     (OPC_XORI, pure exec_XORI),
     (OPC_LUI, pure exec_LUI),
     (OPC_SLTI, pure exec_SLTI),
     (OPC_SLTIU, pure exec_SLTIU),
     (OPC_SLT, pure exec_SLT),
     (OPC_SLTU, pure exec_SLTU),
     (OPC_BEQ, pure exec_BEQ),
     (OPC_BNE, pure exec_BNE),
     (OPC_BAL, pure_t exec_BAL),
     (OPC_CMP, pure exec_CMP),
     (OPC_ADD, pure exec_ADD),
     (OPC_ADDU, pure exec_ADDU),
     (OPC_SUB, pure exec_SUB),
     (OPC_CLZ, pure exec_CLZ),
     (OPC_CLO, pure exec_CLO),
     (OPC_SUBU, pure exec_SUBU),
     (OPC_MUL, pure exec_MUL),
     (OPC_AND, pure exec_AND),
     (OPC_OR, pure exec_OR),
     (OPC_XOR, pure exec_XOR),
     (OPC_ROLI, may_fail exec_ROLI),
     (OPC_RORI, may_fail exec_RORI),
     (OPC_SRA, may_fail exec_SRA),
     (OPC_SHL, may_fail exec_SHL),
     (OPC_SHR, may_fail exec_SHR),
     (OPC_SRAV, may_fail exec_SRAV),
     (OPC_SHLV, may_fail exec_SHLV),
     (OPC_SHRV, may_fail exec_SHRV),
     (OPC_ROL, may_fail exec_ROL),
     (OPC_ROR, may_fail exec_ROR),
     (OPC_JEQ, pure exec_JEQ),
     (OPC_JNE, pure exec_JNE),
     (OPC_JLT, pure exec_JLT),
     (OPC_JGT, pure exec_JGT),
     (OPC_JLE, pure exec_JLE),
     (OPC_JGE, pure exec_JGE),
     (OPC_JMP, pure exec_JMP),
     (OPC_JALR, pure_t exec_JALR),
     (OPC_JSUB, pure_t exec_JSUB),
     (OPC_JR_RET, pure (\<lambda>d. exec_JR_RET)),
     (OPC_MULT, pure exec_MULT),
     (OPC_MULTU, pure exec_MULTU),
     (OPC_DIV, may_fail exec_DIV),
     (OPC_DIVU, may_fail exec_DIVU),
     (OPC_MFHI, pure exec_MFHI),
     (OPC_MFLO, pure exec_MFLO),
     (OPC_MTHI, pure exec_MTHI),
     (OPC_MTLO, pure exec_MTLO),
     (OPC_MFC0, may_fail exec_MFC0),
     (OPC_MTC0, may_fail exec_MTC0),
     (OPC_C0MOV, may_fail exec_C0MOV)]"

definition exec_inst :: "operands \<Rightarrow> 'w api" where
  "exec_inst d h tid v w =
     (if opc d = OPC_SSC then call_api (sint (c16 d)) h tid v w
      else
        (case map_of switch_table (opc d) of
           Some f \<Rightarrow> res_bind (f d tid v) (\<lambda>v. Inr (v, w))
         | None \<Rightarrow>
             Inr (v, h_print h (ascii ''unknonw instrument: '' @ fmt_x (opc d) @ ascii '' at '' @
                                fmt_x (get_cpr PC v) @ [10]) w)))"

section \<open>The loop\<close>

datatype 'w outcome =
    Running vm 'w
  | Returned u32 vm 'w
  | Faulted fault

text \<open>One turn of \<open>while (1)\<close>; \<open>sp_end\<close> is the local copy of the thread's stack limit.\<close>

definition step :: "'w host \<Rightarrow> u64 \<Rightarrow> nat \<Rightarrow> vm \<Rightarrow> 'w \<Rightarrow> 'w outcome" where
  "step h sp_end tid v w =
     (case mem_read 4 (sint (get_cpr PC v)) v of
        Inl e \<Rightarrow> Faulted e
      | Inr inst \<Rightarrow>
          let v = set_cpr PC (get_cpr PC v + 4) v;
              d = decode (of_nat inst)
          in if get_gpr SP v \<le> ucast sp_end
             then Returned (- 3) v (h_print h (ascii ''stack overflow'' @ [10]) w)
             else
               (case exec_inst d h tid v w of
                  Inl e \<Rightarrow> Faulted e
                | Inr (v, w) \<Rightarrow>
                    if get_cpr PC v = 0 then Returned (get_gpr 2 v) v w else Running v w))"

text \<open>The loop itself, \<open>None\<close> when it never ends.\<close>

partial_function (option) run_from ::
  "'w host \<Rightarrow> u64 \<Rightarrow> nat \<Rightarrow> vm \<Rightarrow> 'w \<Rightarrow> 'w outcome option" where
  "run_from h sp_end tid v w =
     (case step h sp_end tid v w of
        Running v w \<Rightarrow> run_from h sp_end tid v w
      | r \<Rightarrow> Some r)"

definition run_init :: "nat \<Rightarrow> vm \<Rightarrow> vm" where
  "run_init tid v =
     set_gpr SP (ucast (t_sp (threads v tid))) (set_cpr PC (ucast (t_entry (threads v tid))) v)"

definition run_loop :: "'w host \<Rightarrow> nat \<Rightarrow> vm \<Rightarrow> 'w \<Rightarrow> 'w outcome option" where
  "run_loop h tid v w =
     (if tid < MAX_THREAD then run_from h (t_sp_end (threads v tid)) tid (run_init tid v) w
      else Some (Faulted (ThreadFault tid)))"

text \<open>The loop as a relation between the machines seen at the head of the loop.\<close>

inductive cpu_step :: "'w host \<Rightarrow> u64 \<Rightarrow> nat \<Rightarrow> vm \<times> 'w \<Rightarrow> vm \<times> 'w \<Rightarrow> bool" for h sp_end tid where
  turn: "step h sp_end tid v w = Running v' w' \<Longrightarrow> cpu_step h sp_end tid (v, w) (v', w')"

inductive_simps cpu_step_iff: "cpu_step h sp_end tid (v, w) (v', w')"
inductive_cases cpu_stepE [elim]: "cpu_step h sp_end tid (v, w) t"

end
