(* ===== verification/Cpu_Compare.thy ===== *)
theory Cpu_Compare
  imports Cpu
begin

text \<open>
  Decoding of assembled instructions, and CMP with the conditional jumps: what the instructions
  of these two groups compute, for every operand.
\<close>

section \<open>Concrete machines\<close>

text \<open>A machine of 256 bytes with the given general registers, and register operands.\<close>

definition vm_regs :: "u32 list \<Rightarrow> vm" where
  "vm_regs rs =
    \<lparr>elf = \<lparr>sym_addr = [], sym_count = 0, str_addr = []\<rparr>,
     cpu = \<lparr>gpr = (\<lambda>n. if n < length rs then rs ! n else 0), cpr = (\<lambda>_. 0)\<rparr>,
     mem = \<lparr>m_start = 0x1000, m_end = 0x1100, m_brk = 0, m_data = (\<lambda>_. 0)\<rparr>,
     entry = 0, stack_size = 256, param_count = 0,
     threads = (\<lambda>_. \<lparr>t_flag = 0, t_prev_sp = 0, t_entry = 0, t_sp = 0, t_sp_end = 0\<rparr>)\<rparr>"

definition operands3 :: "nat \<Rightarrow> nat \<Rightarrow> nat \<Rightarrow> operands" where
  "operands3 a b c = \<lparr>opc = 0, ra = a, rb = b, rc = c, c12 = 0, c16 = 0, c24 = 0\<rparr>"

lemma vm_regs_simps [simp]:
  "get_gpr n (vm_regs rs) = (if n < length rs then rs ! n else 0)" "get_cpr n (vm_regs rs) = 0"
  "vm_size (vm_regs rs) = 256" "m_data (mem (vm_regs rs)) = (\<lambda>_. 0)"
  by (simp_all add: vm_regs_def get_gpr_def get_cpr_def vm_size_def)

lemma operands3_simps [simp]:
  "ra (operands3 a b c) = a" "rb (operands3 a b c) = b" "rc (operands3 a b c) = c"
  "c12 (operands3 a b c) = 0" "c16 (operands3 a b c) = 0" "c24 (operands3 a b c) = 0"
  by (simp_all add: operands3_def)

section \<open>Decoding\<close>

text \<open>The three instruction formats, as an assembler lays them out.\<close>

definition enc_L :: "u32 \<Rightarrow> nat \<Rightarrow> nat \<Rightarrow> u32 \<Rightarrow> u32" where
  "enc_L op a b k = push_bit 24 op OR push_bit 20 (of_nat a) OR push_bit 16 (of_nat b) OR take_bit 16 k"

definition enc_A :: "u32 \<Rightarrow> nat \<Rightarrow> nat \<Rightarrow> nat \<Rightarrow> u32 \<Rightarrow> u32" where
  "enc_A op a b c k = push_bit 24 op OR push_bit 20 (of_nat a) OR push_bit 16 (of_nat b) OR
     push_bit 12 (of_nat c) OR take_bit 12 k"

definition enc_J :: "u32 \<Rightarrow> u32 \<Rightarrow> u32" where
  "enc_J op k = push_bit 24 op OR take_bit 24 k"

lemma signed_take_bit_sint_eq:
  assumes "n < 32" "- (2 ^ n) \<le> sint k" "sint k < 2 ^ n"
  shows "signed_take_bit n (k :: u32) = k"
proof -
  have "sint (signed_take_bit n k) = sint k"
    using assms by (simp add: sint_signed_take_bit_u32 signed_take_bit_int_eq_self_iff)
  then show ?thesis by (simp add: signed_word_eqI)
qed

lemma bit_below:
  assumes "unat (x :: u32) < 2 ^ k" "bit x i"
  shows "i < k"
proof -
  have "take_bit k (unat x) = unat x" using assms(1) by (rule take_bit_nat_eq_self)
  moreover have "bit (unat x) i" using assms(2) by (simp add: bit_simps bit_imp_possible_bit)
  ultimately show ?thesis by (metis bit_take_bit_iff)
qed

lemma field_of:
  assumes "\<And>i. bit (drop_bit n w AND 0xF :: u32) i \<longleftrightarrow> bit (of_nat a :: u32) i" "a < 16"
  shows "unat (drop_bit n w AND 0xF :: u32) = a"
proof -
  have "drop_bit n w AND 0xF = (of_nat a :: u32)" using assms(1) by (rule bit_word_eqI)
  then show ?thesis using assms(2) by (simp add: unat_of_nat)
qed

lemma imm_of:
  assumes "\<And>i. i < n \<Longrightarrow> bit w i \<longleftrightarrow> bit k i" "0 < n" "n \<le> 32" "- (2 ^ (n - 1)) \<le> sint k" "sint k < 2 ^ (n - 1)"
  shows "signed_take_bit (n - 1) (w :: u32) = k"
proof -
  have "signed_take_bit (n - 1) w = signed_take_bit (n - 1) k"
    using assms(1,2) by (intro bit_word_eqI) (auto simp: bit_simps min_def)
  also have "\<dots> = k" using assms(2-) by (intro signed_take_bit_sint_eq) auto
  finally show ?thesis .
qed

lemma bit_reg:
  assumes "a < (16 :: nat)" "bit a i"
  shows "i < 4"
proof -
  have "take_bit 4 a = a" using assms(1) by (intro take_bit_nat_eq_self) simp
  with assms(2) show ?thesis by (metis bit_take_bit_iff)
qed

lemma decode_enc_L:
  assumes "unat op < 256" "a < 16" "b < 16" "- 32768 \<le> sint k" "sint k < 32768"
  shows "opc (decode (enc_L op a b k)) = op" "ra (decode (enc_L op a b k)) = a"
    "rb (decode (enc_L op a b k)) = b" "c16 (decode (enc_L op a b k)) = k"
proof -
  note small = bit_below [of op 8, simplified, OF assms(1)] bit_reg [OF assms(2)] bit_reg [OF assms(3)]
  note bits = enc_L_def bit_simps and_mask_take_bit
  show "opc (decode (enc_L op a b k)) = op"
    by (simp add: decode_def INST_OPC_def, rule bit_word_eqI)
      (auto simp: bits dest: small)
  show "ra (decode (enc_L op a b k)) = a"
    by (simp add: decode_def INST_RA_def, rule field_of)
      (use assms in \<open>auto simp: bits dest: small\<close>)
  show "rb (decode (enc_L op a b k)) = b"
    by (simp add: decode_def INST_RB_def, rule field_of)
      (use assms in \<open>auto simp: bits dest: small\<close>)
  show "c16 (decode (enc_L op a b k)) = k"
    unfolding decode_imm
    by (rule imm_of [of 16, simplified])
      (use assms in \<open>auto simp: enc_L_def bit_simps\<close>)
qed

lemma decode_enc_A:
  assumes "unat op < 256" "a < 16" "b < 16" "c < 16" "- 2048 \<le> sint k" "sint k < 2048"
  shows "opc (decode (enc_A op a b c k)) = op" "ra (decode (enc_A op a b c k)) = a"
    "rb (decode (enc_A op a b c k)) = b" "rc (decode (enc_A op a b c k)) = c"
    "c12 (decode (enc_A op a b c k)) = k"
proof -
  note small = bit_below [of op 8, simplified, OF assms(1)] bit_reg [OF assms(2)] bit_reg [OF assms(3)]
    bit_reg [OF assms(4)]
  note bits = enc_A_def bit_simps and_mask_take_bit
  show "opc (decode (enc_A op a b c k)) = op"
    by (simp add: decode_def INST_OPC_def, rule bit_word_eqI)
      (auto simp: bits dest: small)
  show "ra (decode (enc_A op a b c k)) = a"
    by (simp add: decode_def INST_RA_def, rule field_of)
      (use small assms in \<open>auto simp: bits dest: small\<close>)
  show "rb (decode (enc_A op a b c k)) = b"
    by (simp add: decode_def INST_RB_def, rule field_of)
      (use small assms in \<open>auto simp: bits dest: small\<close>)
  show "rc (decode (enc_A op a b c k)) = c"
    by (simp add: decode_def INST_RC_def, rule field_of)
      (use small assms in \<open>auto simp: bits dest: small\<close>)
  show "c12 (decode (enc_A op a b c k)) = k"
    unfolding decode_imm
    by (rule imm_of [of 12, simplified])
      (use assms in \<open>auto simp: enc_A_def bit_simps\<close>)
qed

lemma decode_enc_J:
  assumes "unat op < 256" "- 8388608 \<le> sint k" "sint k < 8388608"
  shows "opc (decode (enc_J op k)) = op" "c24 (decode (enc_J op k)) = k"
proof -
  note small = bit_below [of op 8, simplified, OF assms(1)]
  note bits = enc_J_def bit_simps and_mask_take_bit
  show "opc (decode (enc_J op k)) = op"
    by (simp add: decode_def INST_OPC_def, rule bit_word_eqI)
      (auto simp: bits dest: small)
  show "c24 (decode (enc_J op k)) = k"
    unfolding decode_imm
    by (rule imm_of [of 24, simplified])
      (use assms in \<open>auto simp: enc_J_def bit_simps\<close>)
qed

text \<open>
  C22: Instruction encoding. An assembled instruction in any of the three formats decodes to the
  opcode, the registers and the immediate it was built from, for every register number and every
  immediate that the format can hold as a signed number.
\<close>

theorem decode_assembled:
  assumes "unat op < 256" "a < 16" "b < 16" "c < 16"
    and "- 2048 \<le> sint k12" "sint k12 < 2048" "- 32768 \<le> sint k16" "sint k16 < 32768"
    and "- 8388608 \<le> sint k24" "sint k24 < 8388608"
  shows "(let d = decode (enc_A op a b c k12) in
            opc d = op \<and> ra d = a \<and> rb d = b \<and> rc d = c \<and> c12 d = k12) \<and>
         (let d = decode (enc_L op a b k16) in
            opc d = op \<and> ra d = a \<and> rb d = b \<and> c16 d = k16) \<and>
         (let d = decode (enc_J op k24) in opc d = op \<and> c24 d = k24)"
  using decode_enc_A [OF assms(1,2,3,4,5,6)] decode_enc_L [OF assms(1,2,3,7,8)]
    decode_enc_J [OF assms(1,9,10)] by (simp add: Let_def)

theorem decode_assembled_witness:
  "c16 (decode (enc_L OPC_LD 3 13 (- 8))) = - 8 \<and> rb (decode (enc_L OPC_LD 3 13 (- 8))) = 13 \<and>
   c24 (decode (enc_J OPC_LD (- 4))) = - 4"
  using decode_assembled [of OPC_LD 3 13 0 0 "- 8" "- 4"] by (simp add: opc_defs Let_def)

section \<open>Comparisons and conditional jumps\<close>

lemma sw_get_bit: "n < 32 \<Longrightarrow> sw_get n v \<longleftrightarrow> bit (get_gpr SW v) n"
  unfolding sw_get_def by (rule and_push_bit_1)

lemma sw_get_set: "n < 32 \<Longrightarrow> k < 32 \<Longrightarrow> sw_get n (sw_set k v) \<longleftrightarrow> n = k \<or> sw_get n v"
  by (auto simp: sw_get_bit sw_set_def bit_simps)

lemma sw_get_clear: "n < 32 \<Longrightarrow> k < 32 \<Longrightarrow> sw_get n (sw_clear k v) \<longleftrightarrow> n \<noteq> k \<and> sw_get n v"
  by (auto simp: sw_get_bit sw_clear_def bit_simps)

lemmas sw_simps = sw_get_set sw_get_clear

lemma sw_frame [simp]:
  "get_cpr n (sw_set k v) = get_cpr n v" "get_cpr n (sw_clear k v) = get_cpr n v"
  by (simp_all add: sw_set_def sw_clear_def)

lemma cmp_flags:
  fixes d v
  defines "t \<equiv> sint (get_gpr (ra d) v - get_gpr (rb d) v)"
  shows "sw_get SW_N (exec_CMP d v) \<longleftrightarrow> t < 0" "sw_get SW_Z (exec_CMP d v) \<longleftrightarrow> t = 0"
    "get_cpr n (exec_CMP d v) = get_cpr n v"
  unfolding t_def by (auto simp: exec_CMP_def Let_def sw_simps sw_defs)

text \<open>A difference of two words reads as the difference of the numbers, or wraps once.\<close>

definition cmp_overflows :: "u32 \<Rightarrow> u32 \<Rightarrow> bool" where
  "cmp_overflows x y \<longleftrightarrow> sint x - sint y < - 2147483648 \<or> 2147483647 < sint x - sint y"

lemma sint_u32_bounds: "- 2147483648 \<le> sint (x :: u32)" "sint (x :: u32) < 2147483648"
  using sint_range_size [of x] by (simp_all add: word_size)

lemma wrap_once:
  fixes t :: int
  assumes "- 4294967296 \<le> t" "t < 4294967296"
  shows "(t + 2147483648) mod 4294967296 - 2147483648 =
    (if t < - 2147483648 then t + 4294967296
     else if 2147483647 < t then t - 4294967296 else t)"
proof -
  have "(t + 2147483648) mod 4294967296 = (t + 2147483648 + 4294967296) mod 4294967296"
    "(t + 2147483648) mod 4294967296 = (t + 2147483648 - 4294967296) mod 4294967296"
    by (simp_all only: mod_add_self2 minus_mod_self2)
  then show ?thesis
    using assms by (auto simp: mod_pos_pos_trivial simp del: mod_add_self2 minus_mod_self2)
qed

lemma sint_diff:
  "sint (x - y :: u32) =
     (if sint x - sint y < - 2147483648 then sint x - sint y + 4294967296
      else if 2147483647 < sint x - sint y then sint x - sint y - 4294967296
      else sint x - sint y)"
proof -
  have "sint (x - y) = (sint x - sint y + 2147483648) mod 4294967296 - 2147483648"
    by (simp add: sint_word_ariths signed_take_bit_eq_take_bit_shift take_bit_eq_mod)
  also have "\<dots> = (if sint x - sint y < - 2147483648 then sint x - sint y + 4294967296
      else if 2147483647 < sint x - sint y then sint x - sint y - 4294967296
      else sint x - sint y)"
    using sint_u32_bounds [of x] sint_u32_bounds [of y] by (intro wrap_once) auto
  finally show ?thesis .
qed

lemma sint_diff_sign:
  "sint (x - y :: u32) < 0 \<longleftrightarrow> (sint x < sint y) \<noteq> cmp_overflows x y"
  "sint (x - y :: u32) = 0 \<longleftrightarrow> x = y" "cmp_overflows x y \<Longrightarrow> x \<noteq> y"
  using sint_u32_bounds [of x] sint_u32_bounds [of y] signed_word_eqI [of x y]
  by (auto simp: sint_diff cmp_overflows_def split: if_splits)

lemma sint_neq: "x \<noteq> (y :: u32) \<Longrightarrow> sint x \<noteq> sint y"
  using signed_word_eqI by blast

text \<open>
  C10: CMP followed by a conditional jump. The six jumps are taken exactly when the signed
  comparison of the two registers they are named after holds, except that the order comparisons
  are inverted when the difference of the two registers does not fit 32 bits.
\<close>

theorem cmp_then_jump:
  fixes d j v
  defines "x \<equiv> get_gpr (ra d) v" and "y \<equiv> get_gpr (rb d) v"
    and "pc \<equiv> get_cpr PC v" and "v' \<equiv> exec_CMP d v"
  shows "get_cpr PC (exec_JEQ j v') = (if x = y then pc + c24 j else pc) \<and>
    get_cpr PC (exec_JNE j v') = (if x \<noteq> y then pc + c24 j else pc) \<and>
    get_cpr PC (exec_JLT j v') = (if (sint x < sint y) \<noteq> cmp_overflows x y then pc + c24 j else pc) \<and>
    get_cpr PC (exec_JGT j v') = (if (sint y < sint x) \<noteq> cmp_overflows x y then pc + c24 j else pc) \<and>
    get_cpr PC (exec_JLE j v') = (if (sint x \<le> sint y) \<noteq> cmp_overflows x y then pc + c24 j else pc) \<and>
    get_cpr PC (exec_JGE j v') = (if (sint y \<le> sint x) \<noteq> cmp_overflows x y then pc + c24 j else pc)"
proof -
  note flags = cmp_flags [where d = d and v = v, folded x_def y_def v'_def]
  have pc: "get_cpr PC v' = pc" unfolding pc_def by (rule flags(3))
  have jump: "get_cpr PC (jump_rel j v') = pc + c24 j" by (simp add: jump_rel_def pc)
  have o: "cmp_overflows x y \<Longrightarrow> x \<noteq> y" by (rule sint_diff_sign(3))
  have ne: "x \<noteq> y \<Longrightarrow> sint x \<noteq> sint y" by (rule sint_neq)
  show ?thesis
    by (intro conjI)
      (use o ne in \<open>auto simp: exec_JEQ_def exec_JNE_def exec_JLT_def exec_JGT_def exec_JLE_def
        exec_JGE_def flags(1,2) sint_diff_sign(1,2) pc jump\<close>)
qed

end
