(* ===== verification/Cpu_Arith.thy ===== *)
theory Cpu_Arith
  imports Cpu_Compare
begin

text \<open>
  Arithmetic, multiplication and division, rotations and shifts: the value each instruction
  leaves in its destination, against the arithmetic operation it is named after.
\<close>

section \<open>The overflow flag of ADD and MUL\<close>

lemma uint_scast_u64:
  "uint (scast (x :: u32) :: u64) = (if sint x < 0 then sint x + 18446744073709551616 else sint x)"
proof -
  have "uint (scast x :: u64) = sint x mod 18446744073709551616"
    unfolding scast_eq uint_word_of_int by simp
  also have "\<dots> = (if sint x < 0 then (sint x + 18446744073709551616) mod 18446744073709551616
      else sint x mod 18446744073709551616)" by simp
  also have "\<dots> = (if sint x < 0 then sint x + 18446744073709551616 else sint x)"
    using sint_u32_bounds [of x]
    by (auto simp: mod_pos_pos_trivial simp del: mod_add_self2)
  finally show ?thesis .
qed

lemma scast_high: "0xFFFFFFFF < (scast (x :: u32) :: u64) \<longleftrightarrow> sint x < 0"
  using sint_u32_bounds [of x] by (simp add: word_less_def uint_scast_u64)

lemma and_low_u64: "(x :: u64) AND 0xFFFFFFFF = take_bit 32 x"
  by (simp add: take_bit_eq_mask mask_eq_exp_minus_1)

lemma low_word_scast: "ucast ((scast (x :: u32) :: u64) AND 0xFFFFFFFF) = x"
  unfolding and_low_u64 by (rule bit_word_eqI) (auto simp: bit_simps)

lemma low_word_ucast: "ucast ((ucast (x :: u32) :: u64) AND 0xFFFFFFFF) = x"
  unfolding and_low_u64 by (rule bit_word_eqI) (auto simp: bit_simps)

lemma get_gpr_sw_set [simp]: "n \<noteq> SW \<Longrightarrow> get_gpr n (sw_set k v) = get_gpr n v"
  by (simp add: sw_set_def)

text \<open>
  C36: ADD and MUL. Both leave the 32-bit sum or product in the destination, but the overflow
  flag they set does not report overflow: it is set exactly when the 32-bit result is negative.
\<close>

theorem add_mul_flag:
  assumes "ra d \<noteq> SW"
  shows "get_gpr (ra d) (exec_ADD d v) = get_gpr (rb d) v + get_gpr (rc d) v \<and>
    (sw_get SW_V (exec_ADD d v) \<longleftrightarrow>
       sw_get SW_V v \<or> sint (get_gpr (rb d) v + get_gpr (rc d) v) < 0) \<and>
    get_gpr (ra d) (exec_MUL d v) = get_gpr (rb d) v * get_gpr (rc d) v \<and>
    (sw_get SW_V (exec_MUL d v) \<longleftrightarrow>
       sw_get SW_V v \<or> sint (get_gpr (rb d) v * get_gpr (rc d) v) < 0)"
proof -
  have s: "sw_get n (set_gpr (ra d) x v) = sw_get n v" for n x v
    using assms by (simp add: sw_get_def)
  show ?thesis
    by (auto simp: exec_ADD_def exec_MUL_def Let_def scast_high low_word_scast s sw_get_set sw_defs)
qed

text \<open>\<open>- 1 + - 1\<close> does not overflow and sets the flag; \<open>65536 * 65536\<close> does and leaves it.\<close>

theorem add_mul_flag_witness:
  "sw_get SW_V (exec_ADD (operands3 1 2 3) (vm_regs [0, 0, - 1, - 1])) \<and>
   \<not> sw_get SW_V (exec_MUL (operands3 1 2 3) (vm_regs [0, 0, 65536, 65536]))"
  using add_mul_flag [of "operands3 1 2 3" "vm_regs [0, 0, - 1, - 1]"]
    add_mul_flag [of "operands3 1 2 3" "vm_regs [0, 0, 65536, 65536]"]
  by (simp add: reg_defs sw_get_def)

section \<open>Counting leading bits\<close>

lemma shift_out_0: "shift_out 0 i n = i"
  by (simp add: shift_out.simps)

lemma shift_out_1: "shift_out 1 0 n = (if odd n then 1 else 0)"
proof -
  have z: "push_bit 1 n AND 1 = 0" by (simp add: and_one_eq mod_2_eq_odd)
  have "shift_out 1 1 (push_bit 1 n) = 1"
    by (subst shift_out.simps) (use z in simp)
  then show ?thesis by (subst shift_out.simps) (simp add: and_one_eq odd_iff_mod_2_eq_one)
qed

text \<open>
  CLZ and CLO. Because the comparison in the loop condition binds tighter than the mask, CLZ
  returns 0 for every operand and CLO returns the lowest bit of its operand.
\<close>

theorem clz_clo_values:
  "get_gpr (ra d) (exec_CLZ d v) = 0 \<and>
   get_gpr (ra d) (exec_CLO d v) = (if odd (get_gpr (rb d) v) then 1 else 0)"
  by (simp add: exec_CLZ_def exec_CLO_def shift_out_0 shift_out_1)

section \<open>Multiplication and division\<close>

lemma sint_mult_fits:
  "sint (x * y :: u32) = sint x * sint y \<longleftrightarrow>
     - 2147483648 \<le> sint x * sint y \<and> sint x * sint y < 2147483648"
  using signed_take_bit_int_eq_self_iff [of 31 "sint x * sint y"] by (simp add: sint_word_ariths)

lemma uint_mult_fits:
  "uint (x * y :: u32) = uint x * uint y \<longleftrightarrow> uint x * uint y < 4294967296"
proof -
  have "uint (x * y) = uint x * uint y mod 4294967296" by (simp add: uint_word_ariths)
  moreover have "0 \<le> uint x * uint y" by simp
  ultimately show ?thesis using pos_mod_bound [of 4294967296 "uint x * uint y"] by (metis mod_pos_pos_trivial zero_less_numeral)
qed

lemma neg_iff_bit: "sint (p :: u32) < 0 \<longleftrightarrow> bit p 31"
  by (simp add: bit_last_iff [symmetric])

lemma hi_of_scast: "(ucast (signed_drop_bit 32 (scast (p :: u32) :: u64)) :: u32) = (if sint p < 0 then - 1 else 0)"
  unfolding neg_iff_bit
  by (rule bit_word_eqI) (auto simp: bit_simps min_def)

lemma hi_of_ucast: "(ucast (drop_bit 32 (ucast (p :: u32) :: u64)) :: u32) = 0"
  by (rule bit_word_eqI) (auto simp: bit_simps dest: bit_imp_le_length)

lemma uint_of_sint: "uint (p :: u32) = (if sint p < 0 then sint p + 4294967296 else sint p)"
proof -
  have "uint p = sint p mod 4294967296"
    using uint_word_of_int [where 'a = 32, of "sint p"] by simp
  also have "\<dots> = (if sint p < 0 then (sint p + 4294967296) mod 4294967296 else sint p mod 4294967296)"
    by simp
  also have "\<dots> = (if sint p < 0 then sint p + 4294967296 else sint p)"
    using sint_u32_bounds [of p]
    by (auto simp: mod_pos_pos_trivial simp del: mod_add_self2)
  finally show ?thesis .
qed

text \<open>
  C35: MULT and MULTU. The pair HI, LO holds the product of the two registers exactly when that
  product already fits 32 bits (signed for MULT, unsigned for MULTU): the product is formed in
  32 bits and widened afterwards, so the high word is only a sign extension.
\<close>

theorem mult_hi_lo:
  "(sint (get_cpr HI (exec_MULT d v)) * 4294967296 + uint (get_cpr LO (exec_MULT d v)) =
      sint (get_gpr (ra d) v) * sint (get_gpr (rb d) v) \<longleftrightarrow>
    - 2147483648 \<le> sint (get_gpr (ra d) v) * sint (get_gpr (rb d) v) \<and>
    sint (get_gpr (ra d) v) * sint (get_gpr (rb d) v) < 2147483648) \<and>
   (uint (get_cpr HI (exec_MULTU d v)) * 4294967296 + uint (get_cpr LO (exec_MULTU d v)) =
      uint (get_gpr (ra d) v) * uint (get_gpr (rb d) v) \<longleftrightarrow>
    uint (get_gpr (ra d) v) * uint (get_gpr (rb d) v) < 4294967296)"
proof
  show "sint (get_cpr HI (exec_MULT d v)) * 4294967296 + uint (get_cpr LO (exec_MULT d v)) =
      sint (get_gpr (ra d) v) * sint (get_gpr (rb d) v) \<longleftrightarrow>
    - 2147483648 \<le> sint (get_gpr (ra d) v) * sint (get_gpr (rb d) v) \<and>
    sint (get_gpr (ra d) v) * sint (get_gpr (rb d) v) < 2147483648"
    unfolding sint_mult_fits [symmetric]
    by (simp add: exec_MULT_def Let_def reg_defs hi_of_scast low_word_scast uint_of_sint)
  show "uint (get_cpr HI (exec_MULTU d v)) * 4294967296 + uint (get_cpr LO (exec_MULTU d v)) =
      uint (get_gpr (ra d) v) * uint (get_gpr (rb d) v) \<longleftrightarrow>
    uint (get_gpr (ra d) v) * uint (get_gpr (rb d) v) < 4294967296"
    unfolding uint_mult_fits [symmetric]
    by (simp add: exec_MULTU_def Let_def reg_defs hi_of_ucast low_word_ucast)
qed

section \<open>Division\<close>

lemma sint_word_of_int:
  "- 2147483648 \<le> k \<Longrightarrow> k < 2147483648 \<Longrightarrow> sint (word_of_int k :: u32) = k"
  by (simp add: sint_sbintrunc' signed_take_bit_int_eq_self_iff)

lemma sdiv_range:
  fixes a b :: int
  assumes "- 2147483648 \<le> a" "a < 2147483648" "b \<noteq> 0" "\<not> (a = - 2147483648 \<and> b = - 1)"
  shows "- 2147483648 \<le> a sdiv b" "a sdiv b < 2147483648"
proof -
  have "- 2147483648 \<le> a sdiv b \<and> a sdiv b < 2147483648"
  proof (cases "b = 1 \<or> b = - 1")
    case True
    then show ?thesis using assms by auto
  next
    case False
    then have "2 \<le> \<bar>b\<bar>" using assms(3) by auto
    then have "\<bar>a\<bar> div \<bar>b\<bar> \<le> \<bar>a\<bar> div 2" by (intro zdiv_mono2) auto
    also have "\<dots> \<le> 1073741824" using assms(1,2) by auto
    finally have "\<bar>a sdiv b\<bar> \<le> 1073741824"
      by (auto simp: signed_divide_int_def abs_mult sgn_if pos_imp_zdiv_nonneg_iff)
    then show ?thesis by auto
  qed
  then show "- 2147483648 \<le> a sdiv b" "a sdiv b < 2147483648" by auto
qed

lemma smod_facts:
  fixes a b :: int
  assumes "b \<noteq> 0"
  shows "\<bar>a smod b\<bar> < \<bar>b\<bar>" "\<bar>a smod b\<bar> \<le> \<bar>a\<bar>" "a smod b = 0 \<or> sgn (a smod b) = sgn a"
proof -
  have m: "0 \<le> \<bar>a\<bar> mod \<bar>b\<bar>" "\<bar>a\<bar> mod \<bar>b\<bar> < \<bar>b\<bar>" using assms by auto
  moreover have "\<bar>a\<bar> mod \<bar>b\<bar> \<le> \<bar>a\<bar>" by (rule zmod_le_nonneg_dividend) simp
  ultimately show "\<bar>a smod b\<bar> < \<bar>b\<bar>" "\<bar>a smod b\<bar> \<le> \<bar>a\<bar>"
    by (auto simp: signed_modulo_int_def abs_mult sgn_if)
  show "a smod b = 0 \<or> sgn (a smod b) = sgn a"
    using m by (auto simp: signed_modulo_int_def sgn_if)
qed

lemma smod_range:
  fixes a b :: int
  assumes "- 2147483648 \<le> b" "b < 2147483648" "b \<noteq> 0"
  shows "- 2147483648 \<le> a smod b" "a smod b < 2147483648"
  using smod_facts(1) [of b a] assms by auto

text \<open>
  C20: DIV and DIVU. Dividing by zero, and \<open>INT_MIN / -1\<close> for DIV, are the only inputs that do
  not complete; on all others HI and LO hold remainder and quotient of the division that
  truncates towards zero, the remainder having the sign of the dividend.
\<close>

theorem div_divu:
  fixes d v
  defines "x \<equiv> get_gpr (ra d) v" and "y \<equiv> get_gpr (rb d) v"
  shows "(case exec_DIV d v of
            Inl e \<Rightarrow> e = DivFault \<and> (y = 0 \<or> sint x = - 2147483648 \<and> sint y = - 1)
          | Inr v' \<Rightarrow>
              sint (get_cpr LO v') * sint y + sint (get_cpr HI v') = sint x \<and>
              \<bar>sint (get_cpr HI v')\<bar> < \<bar>sint y\<bar> \<and>
              (sint (get_cpr HI v') = 0 \<or> sgn (sint (get_cpr HI v')) = sgn (sint x))) \<and>
         (case exec_DIVU d v of
            Inl e \<Rightarrow> e = DivFault \<and> y = 0
          | Inr v' \<Rightarrow>
              uint (get_cpr LO v') * uint y + uint (get_cpr HI v') = uint x \<and>
              uint (get_cpr HI v') < uint y)"
proof
  let ?a = "sint x" and ?b = "sint y"
  have y0: "?b = 0 \<longleftrightarrow> y = 0" by (metis signed_0 sint_neq)
  show "case exec_DIV d v of
            Inl e \<Rightarrow> e = DivFault \<and> (y = 0 \<or> ?a = - 2147483648 \<and> ?b = - 1)
          | Inr v' \<Rightarrow>
              sint (get_cpr LO v') * ?b + sint (get_cpr HI v') = ?a \<and>
              \<bar>sint (get_cpr HI v')\<bar> < \<bar>?b\<bar> \<and>
              (sint (get_cpr HI v') = 0 \<or> sgn (sint (get_cpr HI v')) = sgn ?a)"
  proof (cases "?b = 0 \<or> (?a = - 2147483648 \<and> ?b = - 1)")
    case True
    then show ?thesis using y0 by (auto simp: exec_DIV_def Let_def x_def y_def)
  next
    case False
    then have b: "?b \<noteq> 0" and n: "\<not> (?a = - 2147483648 \<and> ?b = - 1)" by auto
    have lo: "sint (word_of_int (?a sdiv ?b) :: u32) = ?a sdiv ?b"
      using sdiv_range [OF sint_u32_bounds b n] by (rule sint_word_of_int)
    have hi: "sint (word_of_int (?a smod ?b) :: u32) = ?a smod ?b"
      using smod_range [OF sint_u32_bounds b] by (rule sint_word_of_int)
    show ?thesis
      using False smod_facts [OF b, of ?a]
      by (simp add: exec_DIV_def Let_def reg_defs x_def [symmetric] y_def [symmetric] lo hi
        sdiv_mult_smod_eq)
  qed
  show "case exec_DIVU d v of
            Inl e \<Rightarrow> e = DivFault \<and> y = 0
          | Inr v' \<Rightarrow>
              uint (get_cpr LO v') * uint y + uint (get_cpr HI v') = uint x \<and>
              uint (get_cpr HI v') < uint y"
  proof (cases "y = 0")
    case True
    then show ?thesis by (simp add: exec_DIVU_def Let_def y_def)
  next
    case False
    then have "0 < uint y" by (simp add: word_neq_0_conv [symmetric] uint_0_iff order_less_le)
    then show ?thesis using False
      by (simp add: exec_DIVU_def Let_def reg_defs x_def [symmetric] y_def [symmetric]
        uint_div_distrib uint_mod_distrib)
  qed
qed

end
