(* ===== verification/Cpu_Access.thy ===== *)
theory Cpu_Access
  imports Cpu_Arith
begin

text \<open>
  Rotations and shifts, loads and stores, calls and returns, and the coprocessor moves: what the
  instructions of these groups do, on the branches that complete and on those that do not.
\<close>

section \<open>Rotations and shifts\<close>

lemma unat_32_minus: "n < 32 \<Longrightarrow> unat (32 - n :: u32) = 32 - unat n"
  by (simp add: unat_sub word_le_nat_alt word_less_nat_alt)

lemma rotate_defined: "n < 32 \<and> 32 - n < (32 :: u32) \<longleftrightarrow> 0 < unat n \<and> unat n < 32"
proof -
  have "32 - n < (32 :: u32) \<longleftrightarrow> 0 < unat n" if "n < 32"
    using that unat_32_minus [OF that] by (auto simp: word_less_nat_alt)
  then show ?thesis by (auto simp: word_less_nat_alt)
qed

lemma rot_index:
  assumes "i < 32" "0 < k" "k < (32 :: nat)"
  shows "(i + 32 - k) mod 32 = (if k \<le> i then i - k else i + 32 - k)"
    "(i + k) mod 32 = (if i + k < 32 then i + k else i + k - 32)"
  using assms by (auto simp: mod_if)

lemma rotl_shifts:
  assumes "0 < k" "k < 32"
  shows "push_bit k x OR drop_bit (32 - k) x = word_rotl k (x :: u32)"
proof (rule bit_word_eqI)
  fix i assume "i < LENGTH(32)"
  then have i: "i < 32" by simp
  have km: "k mod 32 = k" using assms by simp
  have "32 - k + i = i + 32 - k" using assms by simp
  then have "bit (drop_bit (32 - k) x) i \<longleftrightarrow> bit x (i + 32 - k)" by (simp only: bit_drop_bit_eq comp_def)
  moreover have "bit (push_bit k x) i \<longleftrightarrow> k \<le> i \<and> bit x (i - k)" using i by (simp add: bit_simps)
  moreover have "\<not> bit x (i + 32 - k)" if "k \<le> i" using that bit_imp_le_length [of x "i + 32 - k"] by auto
  ultimately show "bit (push_bit k x OR drop_bit (32 - k) x) i = bit (word_rotl k x) i"
    using i rot_index [OF i assms] km by (auto simp: bit_or_iff bit_word_rotl_iff)
qed

lemma rotr_shifts:
  assumes "0 < k" "k < 32"
  shows "drop_bit k x OR push_bit (32 - k) x = word_rotr k (x :: u32)"
proof (rule bit_word_eqI)
  fix i assume "i < LENGTH(32)"
  then have i: "i < 32" by simp
  have km: "k mod 32 = k" using assms by simp
  have "bit (drop_bit k x) i \<longleftrightarrow> bit x (i + k)" by (simp add: bit_drop_bit_eq add.commute)
  moreover have "bit (push_bit (32 - k) x) i \<longleftrightarrow> 32 \<le> i + k \<and> bit x (i + k - 32)"
    using i assms by (auto simp: bit_simps)
  moreover have "\<not> bit x (i + k)" if "32 \<le> i + k" using that bit_imp_le_length [of x "i + k"] by auto
  ultimately show "bit (drop_bit k x OR push_bit (32 - k) x) i = bit (word_rotr k x) i"
    using i rot_index [OF i assms] km by (auto simp: bit_or_iff bit_word_rotr_iff)
qed

lemma rotate_macros:
  assumes "0 < unat n" "unat n < 32"
  shows "ROL32 x n = Inr (word_rotl (unat n) x)" "ROR32 x n = Inr (word_rotr (unat n) x)"
proof -
  have d: "n < 32" using assms by (simp add: word_less_nat_alt)
  show "ROL32 x n = Inr (word_rotl (unat n) x)" "ROR32 x n = Inr (word_rotr (unat n) x)"
    using rotate_defined [of n] assms d
    by (simp_all add: ROL32_def ROR32_def unat_32_minus rotl_shifts rotr_shifts)
qed

lemma rotate_undefined:
  assumes "\<not> (0 < unat n \<and> unat n < 32)"
  shows "ROL32 x n = Inl ShiftFault" "ROR32 x n = Inl ShiftFault"
  using assms rotate_defined [of n] by (auto simp: ROL32_def ROR32_def)

text \<open>
  Rotations. ROL and ROR rotate the operand by 1 to 31 positions; every other count, zero
  included, makes one of the two shifts of the macro undefined.
\<close>

theorem rol_ror:
  "exec_ROL d v =
     (let n = unat (get_gpr (rc d) v) in
      if 0 < n \<and> n < 32 then Inr (set_gpr (ra d) (word_rotl n (get_gpr (rb d) v)) v)
      else Inl ShiftFault) \<and>
   exec_ROR d v =
     (let n = unat (get_gpr (rc d) v) in
      if 0 < n \<and> n < 32 then Inr (set_gpr (ra d) (word_rotr n (get_gpr (rb d) v)) v)
      else Inl ShiftFault)"
  by (auto simp: exec_ROL_def exec_ROR_def Let_def rotate_macros rotate_undefined)

lemma bit_top_u32: "bit (0x80000000 :: u32) i \<longleftrightarrow> i = 31"
proof -
  have "(0x80000000 :: u32) = 2 ^ 31" by simp
  moreover have "bit (2 ^ 31 :: u32) i \<longleftrightarrow> i = 31"
    unfolding bit_exp_iff by (auto simp: possible_bit_def)
  ultimately show ?thesis by simp
qed

lemma sra_word: "n < 32 \<Longrightarrow> (x AND 0x80000000) OR signed_drop_bit n x = signed_drop_bit n (x :: u32)"
proof (rule bit_word_eqI)
  fix i assume n: "n < 32" and "i < LENGTH(32)"
  then have i: "i < 32" by simp
  have "bit (x AND 0x80000000) i \<longleftrightarrow> bit x i \<and> i = 31"
    unfolding bit_and_iff bit_top_u32 ..
  then show "bit ((x AND 0x80000000) OR signed_drop_bit n x) i = bit (signed_drop_bit n x) i"
    using n i by (cases "n = 0") (auto simp: bit_or_iff bit_signed_drop_bit_iff)
qed

lemma shift_by_value:
  "shift_by sh n x = (if unat n < 32 then Inr (sh (unat n) x) else Inl ShiftFault)"
proof -
  have "0 \<le> sint n \<and> sint n < 32 \<longleftrightarrow> unat n < 32"
    using uint_of_sint [of n] uint_ge_0 [of n] sint_u32_bounds [of n]
    by (auto simp: unat_eq_nat_uint split: if_splits)
  then show ?thesis by (simp add: shift_by_def)
qed

text \<open>
  Shifts. With a count below 32 the three shifts by a constant and the three shifts by a
  register compute the left, the logical right and the arithmetic right shift; every larger
  count (the field has twelve bits) is undefined.
\<close>

theorem shifts:
  fixes d v
  defines "x \<equiv> get_gpr (rb d) v" and "k \<equiv> unat (c12 d AND 0xFFF)" and "n \<equiv> unat (get_gpr (rc d) v)"
  shows "exec_SHL d v = (if k < 32 then Inr (set_gpr (ra d) (push_bit k x) v) else Inl ShiftFault) \<and>
    exec_SHR d v = (if k < 32 then Inr (set_gpr (ra d) (drop_bit k x) v) else Inl ShiftFault) \<and>
    exec_SRA d v = (if k < 32 then Inr (set_gpr (ra d) (signed_drop_bit k x) v) else Inl ShiftFault) \<and>
    exec_SHLV d v = (if n < 32 then Inr (set_gpr (ra d) (push_bit n x) v) else Inl ShiftFault) \<and>
    exec_SHRV d v = (if n < 32 then Inr (set_gpr (ra d) (drop_bit n x) v) else Inl ShiftFault) \<and>
    exec_SRAV d v = (if n < 32 then Inr (set_gpr (ra d) (signed_drop_bit n x) v) else Inl ShiftFault)"
  unfolding exec_SHL_def exec_SHR_def exec_SRA_def exec_SHLV_def exec_SHRV_def exec_SRAV_def
    shift_by_value x_def [symmetric] k_def [symmetric] n_def [symmetric]
  by (simp add: sra_word)

section \<open>Loads and stores\<close>

lemma mem_write_gpr: "mem_write n off x v = Inr v' \<Longrightarrow> get_gpr k v' = get_gpr k v"
  using mem_write_frame by (simp add: get_gpr_def)

lemma ea_after_write: "mem_write n off x v = Inr v' \<Longrightarrow> ea d v' = ea d v"
  by (simp add: ea_def mem_write_gpr)

lemma read_back:
  "mem_write n (ea d v) x v = Inr v' \<Longrightarrow> ea e v = ea d v \<Longrightarrow>
     mem_read n (ea e v') v' = Inr (x mod 256 ^ n)"
  by (simp add: ea_after_write mem_read_write_same)

lemma low_half: "(of_nat (unat (x AND 0xFFFF :: u32) mod 65536) :: u16) = ucast x"
proof -
  have "unat (x AND 0xFFFF) < 65536"
    unfolding and_mask_take_bit unsigned_take_bit_eq by (rule order_less_le_trans [OF take_bit_nat_less_exp]) simp
  then have "(of_nat (unat (x AND 0xFFFF) mod 65536) :: u16) = ucast (x AND 0xFFFF)" by simp
  also have "\<dots> = ucast x" unfolding and_mask_take_bit by (rule bit_word_eqI) (auto simp: bit_simps)
  finally show ?thesis .
qed

lemma low_byte: "(of_nat (unat (x AND 0xFF :: u32) mod 256) :: byte) = ucast x"
proof -
  have m: "x AND 0xFF = take_bit 8 x" by (simp add: take_bit_eq_mask mask_eq_exp_minus_1)
  have "unat (x AND 0xFF) < 256"
    unfolding m unsigned_take_bit_eq by (rule order_less_le_trans [OF take_bit_nat_less_exp]) simp
  then have "(of_nat (unat (x AND 0xFF) mod 256) :: byte) = ucast (x AND 0xFF)" by simp
  also have "\<dots> = ucast x" unfolding m by (rule bit_word_eqI) (auto simp: bit_simps)
  finally show ?thesis .
qed

text \<open>
  C21: Loads after stores. What ST, SH and SB stored is what the loads of the same width and
  address read back: the word itself, the half-word or byte extended by its sign (LH, LB) or by
  zeros (LHU, LBU). The loads change the destination register only.
\<close>

theorem load_after_store:
  assumes "ea e v = ea d v"
  shows "(exec_ST d v = Inr v' \<longrightarrow> exec_LD e v' = Inr (set_gpr (ra e) (get_gpr (ra d) v) v')) \<and>
    (exec_SH d v = Inr v' \<longrightarrow>
       exec_LH e v' = Inr (set_gpr (ra e) (scast (ucast (get_gpr (ra d) v) :: u16)) v') \<and>
       exec_LHU e v' = Inr (set_gpr (ra e) (ucast (ucast (get_gpr (ra d) v) :: u16)) v')) \<and>
    (exec_SB d v = Inr v' \<longrightarrow>
       exec_LB e v' = Inr (set_gpr (ra e) (scast (ucast (get_gpr (ra d) v) :: byte)) v') \<and>
       exec_LBU e v' = Inr (set_gpr (ra e) (ucast (ucast (get_gpr (ra d) v) :: byte)) v'))"
proof -
  let ?x = "get_gpr (ra d) v"
  have "exec_LD e v' = Inr (set_gpr (ra e) ?x v')" if "exec_ST d v = Inr v'"
    using read_back [OF that [unfolded exec_ST_def] assms] by (simp add: exec_LD_def)
  moreover have "exec_LH e v' = Inr (set_gpr (ra e) (scast (ucast ?x :: u16)) v') \<and>
       exec_LHU e v' = Inr (set_gpr (ra e) (ucast (ucast ?x :: u16)) v')" if "exec_SH d v = Inr v'"
    using read_back [OF that [unfolded exec_SH_def] assms] low_half [of ?x]
    by (simp add: exec_LH_def exec_LHU_def del: of_nat_mod)
  moreover have "exec_LB e v' = Inr (set_gpr (ra e) (scast (ucast ?x :: byte)) v') \<and>
       exec_LBU e v' = Inr (set_gpr (ra e) (ucast (ucast ?x :: byte)) v')" if "exec_SB d v = Inr v'"
    using read_back [OF that [unfolded exec_SB_def] assms] low_byte [of ?x]
    by (simp add: exec_LB_def exec_LBU_def)
  ultimately show ?thesis by blast
qed

definition stored_half :: vm where
  "stored_half = (case exec_SH (operands3 1 2 0) (vm_regs [0, 0x1ABCD, 16]) of Inr v \<Rightarrow> v | Inl _ \<Rightarrow> vm_regs [])"

theorem load_after_store_witness:
  "exec_LHU (operands3 5 2 0) stored_half = Inr (set_gpr 5 0xABCD stored_half)"
proof -
  have "exec_SH (operands3 1 2 0) (vm_regs [0, 0x1ABCD, 16]) = Inr stored_half"
    by (simp add: stored_half_def exec_SH_def mem_write_def in_mem_def ea_def)
  then show ?thesis
    using load_after_store [of "operands3 5 2 0" "vm_regs [0, 0x1ABCD, 16]" "operands3 1 2 0" stored_half]
    by (simp add: ea_def)
qed

section \<open>Calls and returns\<close>

text \<open>What a call leaves for its RET and for a host call of the callee.\<close>

definition returns_to :: "nat \<Rightarrow> u32 \<Rightarrow> u32 \<Rightarrow> vm \<Rightarrow> bool" where
  "returns_to tid pc sp v \<longleftrightarrow>
     get_gpr LR v = pc \<and> get_cpr PC (exec_JR_RET v) = pc \<and> t_prev_sp (threads v tid) = sp"

text \<open>
  C25: Calls. JSUB, BAL and JALR leave the return address in the link register, record the stack
  pointer of the caller for the host calls and jump to their target; the RET that follows
  continues after the call. The target of JALR through the link register itself is lost: that
  register is overwritten first, so the call falls through.
\<close>

theorem call_return:
  fixes d v tid
  defines "pc \<equiv> get_cpr PC v" and "sp \<equiv> get_gpr SP v"
  shows "returns_to tid pc sp (exec_JSUB d tid v) \<and> get_cpr PC (exec_JSUB d tid v) = pc + c24 d \<and>
    returns_to tid pc sp (exec_BAL d tid v) \<and> get_cpr PC (exec_BAL d tid v) = pc + c24 d \<and>
    returns_to tid pc sp (exec_JALR d tid v) \<and>
    get_cpr PC (exec_JALR d tid v) = (if rb d = LR then pc else get_gpr (rb d) v)"
  by (simp add: exec_JSUB_def exec_BAL_def exec_JALR_def exec_JR_RET_def jump_rel_def Let_def pc_def
    sp_def reg_defs returns_to_def)

section \<open>Coprocessor moves\<close>

text \<open>
  Coprocessor moves. MFC0 reads back what MTC0 wrote to an existing coprocessor register; an
  index past the four registers is out of bounds. C0MOV, by its name a move between coprocessor
  registers, does what MTC0 does: its source is a general register. MFHI and MFLO read back what
  MTHI and MTLO wrote, which these take from different operand fields.
\<close>

theorem cop_moves:
  "(case exec_MTC0 d v of
      Inl e \<Rightarrow> CPR_COUNT \<le> ra d \<and> e = RegFault (ra d)
    | Inr v' \<Rightarrow> exec_MFC0 (d\<lparr>rb := ra d\<rparr>) v' = Inr (set_gpr (ra d) (get_gpr (rb d) v) v')) \<and>
   exec_C0MOV d v = exec_MTC0 d v \<and>
   get_gpr (ra d) (exec_MFHI d (exec_MTHI d v)) = get_gpr (ra d) v \<and>
   get_gpr (ra d) (exec_MFLO d (exec_MTLO d v)) = get_gpr (rb d) v"
  by (auto simp: exec_MTC0_def exec_MFC0_def exec_C0MOV_def exec_MFHI_def exec_MTHI_def exec_MFLO_def
    exec_MTLO_def CPR_COUNT_def)

end
