(* ===== verification/Cpu_Run.thy ===== *)
theory Cpu_Run
  imports Cpu_Access
begin

text \<open>
  Whole runs of the interpreter: what no instruction and no host call changes, the agreement of
  the loop with its finite runs, and programs executed on the model.
\<close>

section \<open>What every operation leaves alone\<close>

definition frame :: "nat \<Rightarrow> vm \<Rightarrow> vm \<Rightarrow> bool" where
  "frame tid v v' \<longleftrightarrow>
     elf v' = elf v \<and> entry v' = entry v \<and> stack_size v' = stack_size v \<and>
     param_count v' = param_count v \<and> m_start (mem v') = m_start (mem v) \<and>
     m_end (mem v') = m_end (mem v) \<and>
     (\<forall>k. k \<noteq> tid \<longrightarrow> threads v' k = threads v k) \<and>
     t_flag (threads v' tid) = t_flag (threads v tid) \<and>
     t_entry (threads v' tid) = t_entry (threads v tid) \<and>
     t_sp (threads v' tid) = t_sp (threads v tid) \<and>
     t_sp_end (threads v' tid) = t_sp_end (threads v tid)"

lemma frame_refl [simp]: "frame tid v v"
  by (simp add: frame_def)

lemma frame_trans [trans]: "frame tid v v' \<Longrightarrow> frame tid v' v'' \<Longrightarrow> frame tid v v''"
  by (simp add: frame_def)

lemma threads_set_prev_sp: "threads (set_prev_sp t x v) = (threads v)(t := (threads v t)\<lparr>t_prev_sp := x\<rparr>)"
  by (simp add: set_prev_sp_def)

lemma frame_set [simp]:
  "frame tid v (set_gpr k x u) \<longleftrightarrow> frame tid v u"
  "frame tid v (set_cpr k x u) \<longleftrightarrow> frame tid v u"
  "frame tid v (set_brk b u) \<longleftrightarrow> frame tid v u"
  "frame tid v (set_prev_sp tid y u) \<longleftrightarrow> frame tid v u"
  by (auto simp: frame_def frame_simps threads_set_prev_sp)

lemma frame_mem_write: "mem_write n off x v = Inr v' \<Longrightarrow> frame tid v v'"
  by (auto simp: mem_write_def frame_def split: if_splits)

lemma frame_mem_write_bytes: "mem_write_bytes off bs v = Inr v' \<Longrightarrow> frame tid v v'"
  by (auto simp: mem_write_bytes_def frame_def split: if_splits)

lemma frame_sw [simp]:
  "frame tid v (sw_set n u) \<longleftrightarrow> frame tid v u" "frame tid v (sw_clear n u) \<longleftrightarrow> frame tid v u"
  by (simp_all add: sw_set_def sw_clear_def)

lemma frame_jump_rel [simp]: "frame tid v (jump_rel d u) \<longleftrightarrow> frame tid v u"
  by (simp add: jump_rel_def)

lemma frame_set_return [simp]: "frame tid v (abi_func_set_return u r) \<longleftrightarrow> frame tid v u"
  by (simp add: abi_func_set_return_def)

subsection \<open>Instructions\<close>

text \<open>A handler that, when it completes, keeps the frame.\<close>

definition keeps_frame :: "handler \<Rightarrow> bool" where
  "keeps_frame f \<longleftrightarrow> (\<forall>d tid v v'. f d tid v = Inr v' \<longrightarrow> frame tid v v')"

lemma keeps_frame_simps:
  "keeps_frame (pure g) \<longleftrightarrow> (\<forall>d tid v. frame tid v (g d v))"
  "keeps_frame (pure_t k) \<longleftrightarrow> (\<forall>d tid v. frame tid v (k d tid v))"
  "keeps_frame (may_fail r) \<longleftrightarrow> (\<forall>d tid v v'. r d v = Inr v' \<longrightarrow> frame tid v v')"
  by (auto simp: keeps_frame_def pure_def pure_t_def may_fail_def)

lemmas access_defs = exec_LD_def exec_ST_def exec_LB_def exec_LBU_def exec_SB_def exec_LH_def
  exec_LHU_def exec_SH_def

lemmas move_defs = exec_ADDIU_def exec_MOVZ_def exec_MOVN_def exec_ANDI_def exec_ORI_def
  exec_XORI_def exec_LUI_def exec_SLTI_def exec_SLTIU_def exec_SLT_def exec_SLTU_def exec_BEQ_def
  exec_BNE_def exec_BAL_def exec_CMP_def exec_ADD_def exec_ADDU_def exec_SUB_def exec_CLZ_def
  exec_CLO_def exec_SUBU_def exec_MUL_def exec_AND_def exec_OR_def exec_XOR_def

lemmas shift_defs = exec_ROLI_def exec_RORI_def exec_SRA_def exec_SHL_def exec_SHR_def
  exec_SRAV_def exec_SHLV_def exec_SHRV_def exec_ROL_def exec_ROR_def

lemmas jump_defs = exec_JEQ_def exec_JNE_def exec_JLT_def exec_JGT_def exec_JLE_def exec_JGE_def
  exec_JMP_def exec_JALR_def exec_JSUB_def exec_JR_RET_def

lemmas cop_defs = exec_MULT_def exec_MULTU_def exec_DIV_def exec_DIVU_def exec_MFHI_def
  exec_MFLO_def exec_MTHI_def exec_MTLO_def exec_MFC0_def exec_MTC0_def exec_C0MOV_def

lemma table_keeps_frame: "list_all (\<lambda>(op, f). keeps_frame f) switch_table"
  unfolding switch_table_def list.pred_inject case_prod_conv keeps_frame_simps
  by (intro conjI allI impI TrueI)
    (auto simp: access_defs move_defs shift_defs jump_defs cop_defs Let_def res_bind_Inr_iff
      frame_mem_write split: if_splits)

lemma switch_frame:
  assumes "map_of switch_table op = Some f" "f d tid v = Inr v'"
  shows "frame tid v v'"
  using table_keeps_frame map_of_SomeD [OF assms(1)] assms(2)
  by (force simp: list_all_iff keeps_frame_def)

subsection \<open>Host calls\<close>

lemmas api_defs = cpu0_brk_def cpu0_sbrk_def cpu0_time_def cpu0_open_def cpu0_read_def
  cpu0_write_def cpu0_close_def cpu0_lseek_def cpu0_printf_def

definition api_keeps_frame :: "'w api \<Rightarrow> bool" where
  "api_keeps_frame f \<longleftrightarrow> (\<forall>h tid v w v' w'. f h tid v w = Inr (v', w') \<longrightarrow> frame tid v v')"

lemma apis_keep_frame:
  "api_keeps_frame cpu0_printf" "api_keeps_frame cpu0_brk" "api_keeps_frame cpu0_sbrk"
  "api_keeps_frame cpu0_open" "api_keeps_frame cpu0_read" "api_keeps_frame cpu0_write"
  "api_keeps_frame cpu0_close" "api_keeps_frame cpu0_lseek" "api_keeps_frame cpu0_time"
  unfolding api_keeps_frame_def api_defs
  by (auto simp: res_bind_Inr_iff Let_def split_def frame_mem_write_bytes split: if_splits)

lemma api_keeps_frameD: "api_keeps_frame f \<Longrightarrow> f h tid v w = Inr (v', w') \<Longrightarrow> frame tid v v'"
  unfolding api_keeps_frame_def by blast

lemma call_api_frame: "call_api i h tid v w = Inr (v', w') \<Longrightarrow> frame tid v v'"
  by (auto simp: call_api_def api_func_def intro: apis_keep_frame [THEN api_keeps_frameD]
    split: if_splits option.splits)

lemma exec_inst_frame: "exec_inst d h tid v w = Inr (v', w') \<Longrightarrow> frame tid v v'"
  by (auto simp: exec_inst_def res_bind_Inr_iff call_api_frame switch_frame
    split: if_splits option.splits)

section \<open>Turns of the loop\<close>

lemma step_frame:
  "step h sp_end tid v w = Running v' w' \<Longrightarrow> frame tid v v'"
  "step h sp_end tid v w = Returned r v' w' \<Longrightarrow> frame tid v v'"
proof -
  have x: "frame tid v v'" if "exec_inst d h tid (set_cpr PC y v) w = Inr (v', w')" for d y
  proof -
    have "frame tid v (set_cpr PC y v)" by simp
    also have "frame tid (set_cpr PC y v) v'" using that by (rule exec_inst_frame)
    finally show ?thesis .
  qed
  show "step h sp_end tid v w = Running v' w' \<Longrightarrow> frame tid v v'"
    "step h sp_end tid v w = Returned r v' w' \<Longrightarrow> frame tid v v'"
    by (auto simp: step_def Let_def intro: x split: sum.splits if_splits prod.splits)
qed

text \<open>A relation that every turn keeps holds between the ends of every run.\<close>

locale kept_by_turns =
  fixes turn :: "'s \<Rightarrow> 's \<Rightarrow> bool" and kept :: "'s \<Rightarrow> 's \<Rightarrow> bool"
  assumes kept_refl: "kept s s"
    and kept_trans: "kept s t \<Longrightarrow> kept t u \<Longrightarrow> kept s u"
    and kept_turn: "turn s t \<Longrightarrow> kept s t"
begin

lemma kept_run: "turn\<^sup>*\<^sup>* s t \<Longrightarrow> kept s t"
  by (induction rule: rtranclp_induct) (auto intro: kept_refl kept_trans kept_turn)

lemma kept_turns: "(turn ^^ n) s t \<Longrightarrow> kept s t"
  by (rule kept_run) (rule relpowp_imp_rtranclp)

end

interpretation cpu_frame: kept_by_turns "cpu_step h sp_end tid" "\<lambda>s t. frame tid (fst s) (fst t)"
  by unfold_locales (auto intro: frame_trans dest: step_frame elim!: cpu_step.cases)

text \<open>The outcome of the first \<open>n\<close> turns of the loop, or of those it makes before it stops.\<close>

fun run_n :: "nat \<Rightarrow> 'w host \<Rightarrow> u64 \<Rightarrow> nat \<Rightarrow> vm \<Rightarrow> 'w \<Rightarrow> 'w outcome" where
  "run_n 0 h sp_end tid v w = Running v w"
| "run_n (Suc n) h sp_end tid v w =
     (case step h sp_end tid v w of
        Running v w \<Rightarrow> run_n n h sp_end tid v w
      | r \<Rightarrow> r)"

lemma run_n_turns:
  "run_n n h sp_end tid v w = Running v' w' \<longleftrightarrow> (cpu_step h sp_end tid ^^ n) (v, w) (v', w')"
proof (induction n arbitrary: v w)
  case 0
  then show ?case by auto
next
  case (Suc n)
  show ?case
  proof (cases "step h sp_end tid v w")
    case (Running u x)
    then have "cpu_step h sp_end tid (v, w) t \<longleftrightarrow> t = (u, x)" for t
      by (cases t) (auto simp: cpu_step_iff)
    then show ?thesis using Running Suc.IH [of u x] unfolding relpowp_Suc_left by auto
  next
    case (Returned r u x)
    then show ?thesis unfolding relpowp_Suc_left by auto
  next
    case (Faulted e)
    then show ?thesis unfolding relpowp_Suc_left by auto
  qed
qed

text \<open>A run that has stopped got to its last turn by turns that went on.\<close>

lemma run_n_last:
  assumes "run_n n h sp_end tid v w = r" "\<And>u x. r \<noteq> Running u x"
  shows "\<exists>k<n. \<exists>u x. run_n k h sp_end tid v w = Running u x \<and> step h sp_end tid u x = r"
  using assms(1)
proof (induction n arbitrary: v w)
  case 0
  then show ?case using assms(2) by auto
next
  case (Suc n)
  show ?case
  proof (cases "step h sp_end tid v w")
    case (Running a b)
    then have "run_n n h sp_end tid a b = r" using Suc.prems by simp
    then obtain k u x where k: "k < n" "run_n k h sp_end tid a b = Running u x"
      "step h sp_end tid u x = r" using Suc.IH by blast
    have "run_n (Suc k) h sp_end tid v w = Running u x" using Running k by simp
    with k show ?thesis by (intro exI [of _ "Suc k"]) auto
  next
    case (Returned a b c)
    then show ?thesis using Suc.prems by (intro exI [of _ 0]) auto
  next
    case (Faulted e)
    then show ?thesis using Suc.prems by (intro exI [of _ 0]) auto
  qed
qed

lemma running_frame: "run_n n h sp_end tid v w = Running v' w' \<Longrightarrow> frame tid v v'"
  using cpu_frame.kept_turns by (fastforce simp: run_n_turns)

text \<open>
  C12: Isolation. Whatever number of turns the loop has made, the machine it is running, and the
  one it returns, has the symbol table, the bounds of memory, every other thread and the entry
  and stack limits of its own thread that the machine at the start had; only registers, guest
  memory, the program break and the recorded stack pointer of the running thread change. A run
  that comes to undefined behaviour gets there through such machines: the turn in which it does
  starts at a machine the loop reached, and that machine has the frame too.
\<close>

theorem run_keeps_frame:
  "case run_n n h sp_end tid v w of
     Running v' w' \<Rightarrow> frame tid v v'
   | Returned r v' w' \<Rightarrow> frame tid v v'
   | Faulted e \<Rightarrow>
       (\<exists>k<n. case run_n k h sp_end tid v w of
          Running v' w' \<Rightarrow> frame tid v v' \<and> step h sp_end tid v' w' = Faulted e
        | _ \<Rightarrow> False)"
proof (cases "run_n n h sp_end tid v w")
  case (Running v' w')
  then show ?thesis using running_frame by simp
next
  case (Returned r v' w')
  then obtain k u x where k: "run_n k h sp_end tid v w = Running u x"
    and u: "step h sp_end tid u x = Returned r v' w'" using run_n_last [OF Returned] by auto
  have "frame tid v u" using k by (rule running_frame)
  also have "frame tid u v'" using u by (rule step_frame)
  finally show ?thesis using Returned by simp
next
  case (Faulted e)
  then obtain k u x where "k < n" "run_n k h sp_end tid v w = Running u x"
    "step h sp_end tid u x = Faulted e" using run_n_last [OF Faulted] by auto
  moreover from this have "frame tid v u" by (intro running_frame)
  ultimately have "case run_n k h sp_end tid v w of
      Running v' w' \<Rightarrow> frame tid v v' \<and> step h sp_end tid v' w' = Faulted e | _ \<Rightarrow> False" by simp
  with \<open>k < n\<close> show ?thesis unfolding Faulted outcome.case by blast
qed

section \<open>The loop and its unrollings\<close>

definition stopped :: "'w outcome \<Rightarrow> bool" where
  "stopped r \<longleftrightarrow> (case r of Running _ _ \<Rightarrow> False | _ \<Rightarrow> True)"

lemma stopped_simps [simp]:
  "\<not> stopped (Running v w)" "stopped (Returned r v w)" "stopped (Faulted e)"
  by (simp_all add: stopped_def)

lemma run_from_of_n:
  "run_n n h sp_end tid v w = r \<Longrightarrow> stopped r \<Longrightarrow> run_from h sp_end tid v w = Some r"
proof (induction n arbitrary: v w)
  case 0
  then show ?case by auto
next
  case (Suc n)
  then show ?case
    by (subst run_from.simps) (auto split: outcome.splits)
qed

lemma run_from_Some:
  assumes "run_from h sp_end tid v w = Some r"
  shows "\<exists>n. run_n n h sp_end tid v w = r \<and> stopped r"
proof (rule run_from.raw_induct
    [where P = "\<lambda>h sp_end tid v w r. \<exists>n. run_n n h sp_end tid v w = r \<and> stopped r", OF _ assms])
  fix f :: "'a host \<Rightarrow> u64 \<Rightarrow> nat \<Rightarrow> vm \<Rightarrow> 'a \<Rightarrow> 'a outcome option"
    and h :: "'a host" and sp_end tid v w r
  assume ih: "\<And>h sp_end tid v w r. f h sp_end tid v w = Some r \<Longrightarrow>
      \<exists>n. run_n n h sp_end tid v w = r \<and> stopped r"
    and f: "(case step h sp_end tid v w of Running v w \<Rightarrow> f h sp_end tid v w
      | Returned x y z \<Rightarrow> Some (Returned x y z) | Faulted e \<Rightarrow> Some (Faulted e)) = Some r"
  show "\<exists>n. run_n n h sp_end tid v w = r \<and> stopped r"
  proof (cases "step h sp_end tid v w")
    case (Running u x)
    then have "f h sp_end tid u x = Some r" using f by simp
    then obtain n where "run_n n h sp_end tid u x = r" "stopped r" using ih by blast
    then have "run_n (Suc n) h sp_end tid v w = r \<and> stopped r" using Running by simp
    then show ?thesis by blast
  next
    case (Returned a b c)
    then have "r = Returned a b c" using f by simp
    then show ?thesis using Returned by (intro exI [of _ "Suc 0"]) simp
  next
    case (Faulted e)
    then have "r = Faulted e" using f by simp
    then show ?thesis using Faulted by (intro exI [of _ "Suc 0"]) simp
  qed
qed

text \<open>
  The loop ends with a result exactly when finitely many turns reach that result, and it runs
  for ever exactly when every finite number of turns leaves the machine running.
\<close>

lemma loop_is_its_turns:
  "(run_from h sp_end tid v w = Some r \<longleftrightarrow> (\<exists>n. run_n n h sp_end tid v w = r \<and> stopped r)) \<and>
   (run_from h sp_end tid v w = None \<longleftrightarrow> (\<forall>n. \<not> stopped (run_n n h sp_end tid v w)))"
proof
  show e: "run_from h sp_end tid v w = Some r \<longleftrightarrow> (\<exists>n. run_n n h sp_end tid v w = r \<and> stopped r)" for r
    using run_from_Some [of h sp_end tid v w r] run_from_of_n [of _ h sp_end tid v w r] by blast
  show "run_from h sp_end tid v w = None \<longleftrightarrow> (\<forall>n. \<not> stopped (run_n n h sp_end tid v w))"
    using e by (metis not_None_eq)
qed

section \<open>Programs\<close>

text \<open>The instruction at an address, and a turn that executes it.\<close>

definition inst_at :: "vm \<Rightarrow> u32 \<Rightarrow> u32 \<Rightarrow> bool" where
  "inst_at v pc inst \<longleftrightarrow> mem_read 4 (sint pc) v = Inr (unat inst)"

lemma inst_at_frame [simp]:
  "inst_at (set_gpr k x v) pc inst \<longleftrightarrow> inst_at v pc inst"
  "inst_at (set_cpr k x v) pc inst \<longleftrightarrow> inst_at v pc inst"
  by (simp_all add: inst_at_def mem_read_def in_mem_def vm_size_def frame_simps)

lemma step_at:
  assumes "inst_at v (get_cpr PC v) inst" "ucast sp_end < get_gpr SP v"
  shows "step h sp_end tid v w =
    (case exec_inst (decode inst) h tid (set_cpr PC (get_cpr PC v + 4) v) w of
       Inl e \<Rightarrow> Faulted e
     | Inr (v, w) \<Rightarrow> if get_cpr PC v = 0 then Returned (get_gpr 2 v) v w else Running v w)"
  using assms by (simp add: step_def inst_at_def Let_def not_le [symmetric])

lemma step_runs:
  assumes "inst_at v pc inst" "get_cpr PC v = pc" "ucast sp_end < get_gpr SP v"
    and "exec_inst (decode inst) h tid (set_cpr PC (pc + 4) v) w = Inr (v', w')" "get_cpr PC v' \<noteq> 0"
  shows "step h sp_end tid v w = Running v' w'"
  using assms step_at [of v inst sp_end h tid w] by simp

lemma set_cpr_set_gpr: "set_cpr a x (set_gpr k y v) = set_gpr k y (set_cpr a x v)"
  by (simp add: set_cpr_def set_gpr_def)

lemma switch_lookup:
  "map_of switch_table OPC_JMP = Some (pure exec_JMP)"
  "map_of switch_table OPC_ADDU = Some (pure exec_ADDU)"
  "map_of switch_table OPC_ADDIU = Some (pure exec_ADDIU)"
  "map_of switch_table OPC_BNE = Some (pure exec_BNE)"
  "map_of switch_table OPC_JR_RET = Some (pure (\<lambda>d. exec_JR_RET))"
  by (simp_all add: switch_table_def opc_defs)

lemma exec_inst_pure:
  assumes "opc d \<noteq> OPC_SSC" "map_of switch_table (opc d) = Some (pure f)"
  shows "exec_inst d h tid v w = Inr (f d v, w)"
  using assms by (simp add: exec_inst_def pure_def)

text \<open>
  A guest that loops. A jump back to itself never returns to the host: with the stack above
  its limit, the loop has no result.
\<close>

theorem self_jump_diverges:
  assumes "inst_at v (get_cpr PC v) (enc_J OPC_JMP (- 4))" "ucast sp_end < get_gpr SP v"
    "get_cpr PC v \<noteq> 0"
  shows "run_from h sp_end tid v w = None"
proof -
  have d: "opc (decode (enc_J OPC_JMP (- 4))) = OPC_JMP" "c24 (decode (enc_J OPC_JMP (- 4))) = - 4"
    by (rule decode_enc_J; simp add: opc_defs)+
  have "set_cpr PC (get_cpr PC v) v = v" by (simp add: set_cpr_def get_cpr_def)
  then have s: "step h sp_end tid v w = Running v w" 
    using assms d switch_lookup
    by (simp add: step_at exec_inst_pure [where f = exec_JMP] exec_JMP_def jump_rel_def opc_defs)
  have "run_n n h sp_end tid v w = Running v w" for n
    by (induction n) (simp_all add: s)
  then show ?thesis by (metis loop_is_its_turns stopped_simps(1))
qed

text \<open>A machine about to execute a program stored from address 4.\<close>

definition vm_code :: "u32 list \<Rightarrow> u32 list \<Rightarrow> vm" where
  "vm_code code rs =
     (let v = set_cpr PC 4 (vm_regs rs) in
      v\<lparr>mem := (mem v)\<lparr>m_data := store_bytes (\<lambda>_. 0) 4 (concat (map (\<lambda>i. le_bytes 4 (unat i)) code))\<rparr>\<rparr>)"

lemma vm_code_simps [simp]:
  "get_gpr n (vm_code code rs) = get_gpr n (vm_regs rs)" "get_cpr PC (vm_code code rs) = 4"
  "vm_size (vm_code code rs) = 256"
  by (simp_all add: vm_code_def Let_def vm_size_def get_gpr_def get_cpr_def set_cpr_def)
    (simp_all add: vm_regs_def)

lemma store_bytes_append:
  "store_bytes m a (xs @ ys) = store_bytes (store_bytes m a xs) (a + length xs) ys"
  by (auto simp: store_bytes_def fun_eq_iff nth_append)

lemma load_words:
  assumes "i < length ws"
  shows "load_le (store_bytes m a (concat (map (\<lambda>w. le_bytes 4 (unat (w :: u32))) ws))) (a + 4 * i) 4 = unat (ws ! i)"
proof -
  let ?f = "\<lambda>w :: u32. le_bytes 4 (unat w)"
  have len: "length (concat (map ?f xs)) = 4 * length xs" for xs by (induction xs) auto
  have "ws = take i ws @ ws ! i # drop (Suc i) ws" using assms by (rule id_take_nth_drop)
  then have "concat (map ?f ws) =
      concat (map ?f (take i ws)) @ ?f (ws ! i) @ concat (map ?f (drop (Suc i) ws))"
    by (metis (no_types, lifting) concat.simps(2) concat_append list.simps(9) map_append)
  then show ?thesis using assms
    by (simp add: store_bytes_append len mem_simps load_le_def)
qed

lemma inst_at_vm_code:
  assumes "i < length code" "length code \<le> 63"
  shows "inst_at (vm_code code rs) (4 + 4 * of_nat i) (code ! i)"
proof -
  have n: "unat (4 + 4 * of_nat i :: u32) = 4 + 4 * i"
    using assms by (simp add: unat_word_ariths unat_of_nat)
  then have "sint (4 + 4 * of_nat i :: u32) = int (4 + 4 * i)" using assms by (subst sint_small) simp_all
  moreover have "m_data (mem (vm_code code rs)) =
      store_bytes (\<lambda>_. 0) 4 (concat (map (\<lambda>i. le_bytes 4 (unat i)) code))"
    by (simp add: vm_code_def Let_def)
  ultimately show ?thesis
    using assms load_words [OF assms(1), of "\<lambda>_. 0" 4]
    by (simp add: inst_at_def mem_read_def in_mem_def nat_add_distrib nat_mult_distrib)
qed

theorem self_jump_diverges_witness:
  "run_from sample_host 128 0 (vm_code [enc_J OPC_JMP (- 4)] [0, 0, 0, 0, 0, 0, 0, 0, 0, 0, 0, 0, 0, 256]) () = None"
  using inst_at_vm_code [of 0 "[enc_J OPC_JMP (- 4)]"]
  by (intro self_jump_diverges) (simp_all add: SP_def)

section \<open>A loop in machine code\<close>

text \<open>\<open>do { r2 += r4; r4 += -1; } while (r4 != r0); return;\<close>\<close>

definition sum_code :: "u32 list" where
  "sum_code = [enc_A OPC_ADDU 2 2 4 0, enc_L OPC_ADDIU 4 4 (- 1), enc_L OPC_BNE 4 0 (- 12),
               enc_J OPC_JR_RET 0]"

definition holds_sum_code :: "vm \<Rightarrow> bool" where
  "holds_sum_code v \<longleftrightarrow> inst_at v 4 (enc_A OPC_ADDU 2 2 4 0) \<and>
     inst_at v 8 (enc_L OPC_ADDIU 4 4 (- 1)) \<and> inst_at v 12 (enc_L OPC_BNE 4 0 (- 12)) \<and>
     inst_at v 16 (enc_J OPC_JR_RET 0)"

fun result_of :: "'w outcome option \<Rightarrow> u32 option" where
  "result_of (Some (Returned r v w)) = Some r"
| "result_of _ = None"

lemma holds_sum_code_frame [simp]:
  "holds_sum_code (set_gpr k x v) \<longleftrightarrow> holds_sum_code v"
  "holds_sum_code (set_cpr k x v) \<longleftrightarrow> holds_sum_code v"
  by (simp_all add: holds_sum_code_def)

lemma exec_sum_code:
  "exec_inst (decode (enc_A OPC_ADDU 2 2 4 0)) h tid v w =
     Inr (set_gpr 2 (get_gpr 2 v + get_gpr 4 v) v, w)"
  "exec_inst (decode (enc_L OPC_ADDIU 4 4 (- 1))) h tid v w = Inr (set_gpr 4 (get_gpr 4 v - 1) v, w)"
  "exec_inst (decode (enc_L OPC_BNE 4 0 (- 12))) h tid v w =
     Inr (if get_gpr 4 v \<noteq> get_gpr 0 v then set_cpr PC (get_cpr PC v - 12) v else v, w)"
  "exec_inst (decode (enc_J OPC_JR_RET 0)) h tid v w = Inr (set_cpr PC (get_gpr LR v) v, w)"
proof -
  have 1: "unat OPC_ADDU < 256" "unat OPC_ADDIU < 256" "unat OPC_BNE < 256" "unat OPC_JR_RET < 256"
    and 2: "OPC_ADDU \<noteq> OPC_SSC" "OPC_ADDIU \<noteq> OPC_SSC" "OPC_BNE \<noteq> OPC_SSC" "OPC_JR_RET \<noteq> OPC_SSC"
    by (simp_all add: opc_defs)
  show "exec_inst (decode (enc_A OPC_ADDU 2 2 4 0)) h tid v w =
     Inr (set_gpr 2 (get_gpr 2 v + get_gpr 4 v) v, w)"
    using decode_enc_A [of OPC_ADDU 2 2 4 0] 1 2
    by (simp add: exec_inst_pure [where f = exec_ADDU] switch_lookup exec_ADDU_def)
  show "exec_inst (decode (enc_L OPC_ADDIU 4 4 (- 1))) h tid v w = Inr (set_gpr 4 (get_gpr 4 v - 1) v, w)"
    using decode_enc_L [of OPC_ADDIU 4 4 "- 1"] 1 2
    by (simp add: exec_inst_pure [where f = exec_ADDIU] switch_lookup exec_ADDIU_def)
  show "exec_inst (decode (enc_L OPC_BNE 4 0 (- 12))) h tid v w =
     Inr (if get_gpr 4 v \<noteq> get_gpr 0 v then set_cpr PC (get_cpr PC v - 12) v else v, w)"
    using decode_enc_L [of OPC_BNE 4 0 "- 12"] 1 2
    by (simp add: exec_inst_pure [where f = exec_BNE] switch_lookup exec_BNE_def)
  show "exec_inst (decode (enc_J OPC_JR_RET 0)) h tid v w = Inr (set_cpr PC (get_gpr LR v) v, w)"
    using decode_enc_J [of OPC_JR_RET 0] 1 2
    by (simp add: exec_inst_pure [where f = "\<lambda>d. exec_JR_RET"] switch_lookup exec_JR_RET_def)
qed

lemma sum_turns:
  assumes "holds_sum_code v" "get_cpr PC v = 4" "ucast sp_end < get_gpr SP v"
  shows "run_n 3 h sp_end tid v w =
    Running (set_cpr PC (if get_gpr 4 v - 1 = get_gpr 0 v then 16 else 4)
      (set_gpr 4 (get_gpr 4 v - 1) (set_gpr 2 (get_gpr 2 v + get_gpr 4 v) v))) w"
proof -
  note code = assms(1) [unfolded holds_sum_code_def]
  define v1 where "v1 = set_cpr PC 8 (set_gpr 2 (get_gpr 2 v + get_gpr 4 v) v)"
  define v2 where "v2 = set_cpr PC 12 (set_gpr 4 (get_gpr 4 v - 1) v1)"
  define v3 where "v3 = set_cpr PC (if get_gpr 4 v - 1 = get_gpr 0 v then 16 else 4) v2"
  have "step h sp_end tid v w = Running v1 w"
    using code assms(2,3)
    by (intro step_runs [of v 4 "enc_A OPC_ADDU 2 2 4 0"])
      (simp_all add: exec_sum_code v1_def set_cpr_set_gpr)
  moreover have "step h sp_end tid v1 w = Running v2 w"
    using code assms(2,3)
    by (intro step_runs [of v1 8 "enc_L OPC_ADDIU 4 4 (- 1)"])
      (simp_all add: exec_sum_code v1_def v2_def set_cpr_set_gpr SP_def)
  moreover have "step h sp_end tid v2 w = Running v3 w"
    using code assms(2,3)
    by (intro step_runs [of v2 12 "enc_L OPC_BNE 4 0 (- 12)"])
      (simp_all add: exec_sum_code v1_def v2_def v3_def SP_def set_cpr_set_gpr)
  ultimately have "run_n 3 h sp_end tid v w = Running v3 w" by (simp add: eval_nat_numeral)
  also have "v3 = set_cpr PC (if get_gpr 4 v - 1 = get_gpr 0 v then 16 else 4)
      (set_gpr 4 (get_gpr 4 v - 1) (set_gpr 2 (get_gpr 2 v + get_gpr 4 v) v))"
    by (simp add: v1_def v2_def v3_def set_cpr_set_gpr)
  finally show ?thesis .
qed

lemma run_from_after:
  assumes "run_n n h sp_end tid v w = Running v' w'"
  shows "run_from h sp_end tid v w = run_from h sp_end tid v' w'"
  using assms
proof (induction n arbitrary: v w)
  case 0
  then show ?case by simp
next
  case (Suc n)
  then show ?case
    by (subst run_from.simps) (auto split: outcome.splits)
qed

text \<open>
  C13: A program on the interpreter. The four-instruction loop that adds a counter to an
  accumulator until the counter is zero returns the accumulator plus 1 + ... + n, modulo
  \<open>2 ^ 32\<close>, for every start value n from 1 to \<open>2 ^ 32 - 1\<close> of the counter.
\<close>

theorem sum_program:
  assumes "holds_sum_code v" "get_cpr PC v = 4" "ucast sp_end < get_gpr SP v"
    and "get_gpr 0 v = 0" "get_gpr LR v = 0" "0 < unat (get_gpr 4 v)"
  shows "result_of (run_from h sp_end tid v w) =
    Some (get_gpr 2 v + of_nat (\<Sum>i \<le> unat (get_gpr 4 v). i))"
  using assms
proof (induction "unat (get_gpr 4 v)" arbitrary: v)
  case 0
  then show ?case by simp
next
  case (Suc n)
  define u where "u = set_cpr PC (if get_gpr 4 v - 1 = get_gpr 0 v then 16 else 4)
      (set_gpr 4 (get_gpr 4 v - 1) (set_gpr 2 (get_gpr 2 v + get_gpr 4 v) v))"
  have turn: "run_from h sp_end tid v w = run_from h sp_end tid u w"
    unfolding u_def by (rule run_from_after [OF sum_turns]) (fact Suc.prems)+
  have n: "unat (get_gpr 4 v - 1) = n"
    using Suc.hyps(2) by (simp add: unat_minus_one unat_eq_0 [symmetric])
  have r4: "get_gpr 4 v = of_nat (Suc n)" using Suc.hyps(2) by simp
  have keep: "holds_sum_code u" "ucast sp_end < get_gpr SP u" "get_gpr 0 u = 0" "get_gpr LR u = 0"
    "get_gpr 4 u = get_gpr 4 v - 1" "get_gpr 2 u = get_gpr 2 v + get_gpr 4 v"
    using Suc.prems by (simp_all add: u_def reg_defs)
  show ?case
  proof (cases n)
    case 0
    then have "get_gpr 4 v = 1" using r4 by simp
    then have pc: "get_cpr PC u = 16" using Suc.prems by (simp add: u_def)
    have i: "inst_at u 16 (enc_J OPC_JR_RET 0)" using keep(1) by (simp add: holds_sum_code_def)
    have "step h sp_end tid u w = Returned (get_gpr 2 u) (set_cpr PC 0 u) w"
      using step_at [of u "enc_J OPC_JR_RET 0" sp_end h tid w] i pc keep by (simp add: exec_sum_code)
    then have "run_from h sp_end tid u w = Some (Returned (get_gpr 2 u) (set_cpr PC 0 u) w)"
      by (subst run_from.simps) simp
    then show ?thesis using turn keep(6) 0 r4 by simp
  next
    case (Suc m)
    then have "get_cpr PC u = 4" using n Suc.prems by (auto simp: u_def)
    then have "result_of (run_from h sp_end tid u w) =
        Some (get_gpr 2 u + of_nat (\<Sum>i \<le> unat (get_gpr 4 u). i))"
      using keep n Suc by (intro Suc.hyps(1)) simp_all
    then have "result_of (run_from h sp_end tid v w) =
        Some (get_gpr 2 v + of_nat (Suc n) + of_nat (\<Sum>i \<le> n. i))"
      using turn keep(5,6) n r4 by metis
    also have "get_gpr 2 v + of_nat (Suc n) + of_nat (\<Sum>i \<le> n. i) =
        get_gpr 2 v + of_nat (\<Sum>i \<le> unat (get_gpr 4 v). i)"
      unfolding Suc.hyps(2) [symmetric] sum.atMost_Suc of_nat_add by (simp only: ac_simps)
    finally show ?thesis .
  qed
qed

theorem sum_program_witness:
  "result_of (run_from sample_host 128 0 (vm_code sum_code [0, 0, 0, 0, 100, 0, 0, 0, 0, 0, 0, 0, 0, 256, 0]) ())
   = Some 5050"
proof -
  let ?v = "vm_code sum_code [0, 0, 0, 0, 100, 0, 0, 0, 0, 0, 0, 0, 0, 256, 0]"
  have c: "holds_sum_code ?v"
    using inst_at_vm_code [of 0 sum_code] inst_at_vm_code [of 1 sum_code] inst_at_vm_code [of 2 sum_code]
      inst_at_vm_code [of 3 sum_code]
    by (simp add: holds_sum_code_def sum_code_def)
  have "(\<Sum>i \<le> (100 :: nat). i) = 5050" by (simp add: atMost_atLeast0 gauss_sum_nat)
  then show ?thesis
    using sum_program [OF c, of 128 sample_host 0 "()"] by (simp add: SP_def LR_def del: sum.atMost_Suc of_nat_sum)
qed

end
