(* ===== verification/Api_Correct.thy ===== *)
theory Api_Correct
  imports Cpu_Run
begin

text \<open>
  What the host calls do: the program break, file input, formatted output, and the way a
  parameter travels from the guest's stack to a host call.
\<close>

section \<open>The program break\<close>

lemma uint_u32: "0 \<le> uint (x :: u32)" "uint (x :: u32) < 4294967296"
  using uint_lt2p [of x] by simp_all

lemma uint_ucast_u64: "uint (ucast (x :: u32) :: u64) = uint x"
proof -
  have "uint (ucast x :: u64) = take_bit 64 (uint x)"
    using unsigned_ucast_eq [where 'c = 64, of x] by simp
  also have "\<dots> = uint x"
    using uint_u32 [of x] by (intro take_bit_int_eq_self) auto
  finally show ?thesis .
qed

lemma uint_add_u64:
  assumes "uint (x :: u64) + uint y < 18446744073709551616"
  shows "uint (x + y) = uint x + uint y"
proof -
  have "uint (x + y) = (uint x + uint y) mod 18446744073709551616" by (simp add: uint_word_ariths)
  also have "\<dots> = uint x + uint y" using assms by (intro mod_pos_pos_trivial) simp_all
  finally show ?thesis .
qed

lemma vm_size_eq:
  "m_start (mem v) \<le> m_end (mem v) \<Longrightarrow>
     int (vm_size v) = uint (m_end (mem v)) - uint (m_start (mem v))"
  by (simp add: vm_size_def uint_minus_simple_alt [THEN iffD1] word_le_def)

text \<open>
  C30: brk. For a memory block that does not touch the top of the host's address space, brk
  accepts exactly the offsets below the size of guest memory, making them the new break and
  returning 0; on all others it reports failure with -1 and leaves the break alone.
\<close>

theorem brk_checks_size:
  assumes "m_start (mem v) \<le> m_end (mem v)" "uint (m_start (mem v)) + 4294967296 \<le> 18446744073709551616"
  shows "cpu0_brk h tid v w =
    (if unat (get_gpr 4 v) < vm_size v
     then Inr (abi_func_set_return (set_brk (ucast (get_gpr 4 v)) v) 0, w)
     else Inr (abi_func_set_return v (- 1), h_print h (ascii ''brk failed, no memory!'' @ [10]) w))"
proof -
  have "uint (m_start (mem v) + ucast (get_gpr 4 v)) = uint (m_start (mem v)) + uint (get_gpr 4 v)"
    using assms(2) uint_u32 [of "get_gpr 4 v"] by (subst uint_add_u64) (simp_all add: uint_ucast_u64)
  then have "m_end (mem v) \<le> m_start (mem v) + ucast (get_gpr 4 v) \<longleftrightarrow>
      int (vm_size v) \<le> uint (get_gpr 4 v)"
    unfolding word_le_def vm_size_eq [OF assms(1)] by linarith
  also have "\<dots> \<longleftrightarrow> \<not> unat (get_gpr 4 v) < vm_size v"
    by (metis int_nat_eq linorder_not_le of_nat_le_iff uint_u32(1) unat_eq_nat_uint)
  finally show ?thesis by (simp add: cpu0_brk_def abi_func_param_n_def)
qed

text \<open>A machine of 1 MB at a usual address of the host's heap.\<close>

definition vm_heap :: "u32 list \<Rightarrow> u64 \<Rightarrow> vm" where
  "vm_heap rs brk = (vm_regs rs)\<lparr>mem :=
     \<lparr>m_start = 0x7F0000000000, m_end = 0x7F0000100000, m_brk = brk, m_data = (\<lambda>_. 0)\<rparr>\<rparr>"

lemma vm_heap_simps [simp]:
  "get_gpr n (vm_heap rs b) = (if n < length rs then rs ! n else 0)"
  "m_start (mem (vm_heap rs b)) = 0x7F0000000000" "m_end (mem (vm_heap rs b)) = 0x7F0000100000"
  "m_brk (mem (vm_heap rs b)) = b" "vm_size (vm_heap rs b) = 0x100000"
  using vm_regs_simps(1) [of n rs] by (simp_all add: vm_heap_def get_gpr_def vm_size_def)

theorem brk_checks_size_witness:
  "cpu0_brk sample_host 0 (vm_heap [0, 0, 0, 0, 0xFFFFF] 0) () =
     Inr (abi_func_set_return (set_brk 0xFFFFF (vm_heap [0, 0, 0, 0, 0xFFFFF] 0)) 0, ())"
  using brk_checks_size [of "vm_heap [0, 0, 0, 0, 0xFFFFF] 0" sample_host 0 "()"] by simp

lemma sbrk_accepts:
  assumes "8589934592 \<le> uint (m_end (mem v))" "uint (m_end (mem v)) < 9223372036854775808"
    and "uint (m_brk (mem v)) \<le> 4294967296"
  shows "cpu0_sbrk h tid v w =
    Inr (abi_func_set_return (set_brk (m_brk (mem v) + ucast (get_gpr 4 v)) v) (ucast (m_brk (mem v))), w)"
proof -
  let ?e = "m_end (mem v)" and ?b = "m_brk (mem v)"
  have "uint (?e - ?b) = uint ?e - uint ?b"
    using assms by (intro uint_minus_simple_alt [THEN iffD1]) (simp add: word_le_def)
  moreover have "sint (?e - ?b) = uint (?e - ?b)"
  proof -
    have "uint (?e - ?b) < 9223372036854775808" using calculation assms(2) uint_ge_0 [of ?b] by linarith
    moreover have "- 9223372036854775808 \<le> uint (?e - ?b)" using uint_ge_0 [of "?e - ?b"] by linarith
    ultimately show ?thesis unfolding sint_uint by (intro signed_take_bit_int_eq_self) simp_all
  qed
  ultimately have "\<not> sint (?e - ?b) \<le> uint (get_gpr 4 v)"
    using assms uint_u32 [of "get_gpr 4 v"] by linarith
  then show ?thesis by (simp add: cpu0_sbrk_def abi_func_param_n_def)
qed

text \<open>
  C31: sbrk. The room left is computed as the end of memory, a host address, minus the break, an
  offset. For memory above the first 8 GB of the host's address space, sbrk therefore accepts
  every increment, returns the old break and moves the break past the end of guest memory.
\<close>

theorem sbrk_never_fails:
  assumes "8589934592 \<le> uint (m_end (mem v))" "uint (m_end (mem v)) < 9223372036854775808"
    and "uint (m_brk (mem v)) \<le> 4294967296"
  shows "cpu0_sbrk h tid v w =
    Inr (abi_func_set_return (set_brk (m_brk (mem v) + ucast (get_gpr 4 v)) v) (ucast (m_brk (mem v))), w)"
  by (rule sbrk_accepts [OF assms])

theorem sbrk_never_fails_witness:
  "cpu0_sbrk sample_host 0 (vm_heap [0, 0, 0, 0, 0xFFFFFFFF] 0x8000) () =
     Inr (abi_func_set_return (set_brk 0x100007FFF (vm_heap [0, 0, 0, 0, 0xFFFFFFFF] 0x8000)) 0x8000, ())"
  using sbrk_never_fails [of "vm_heap [0, 0, 0, 0, 0xFFFFFFFF] 0x8000" sample_host 0 "()"] by simp

section \<open>Files\<close>

lemma and_3_cases: "(x :: u32) AND 3 = 0 \<or> x AND 3 = 1 \<or> x AND 3 = 2 \<or> x AND 3 = 3"
proof -
  have m: "x AND 3 = take_bit 2 x" by (simp add: take_bit_eq_mask mask_eq_exp_minus_1)
  have "unat (x AND 3) < 4"
    unfolding m unsigned_take_bit_eq by (rule order_less_le_trans [OF take_bit_nat_less_exp]) simp
  then have "unat (x AND 3) = 0 \<or> unat (x AND 3) = 1 \<or> unat (x AND 3) = 2 \<or> unat (x AND 3) = 3" by auto
  then show ?thesis by (auto simp: word_unat_eq_iff)
qed

text \<open>
  C33: open. Whether the file is opened at all depends on the value an uninitialised variable
  happens to hold: a negative one is returned to the guest as the result, the host is not called;
  otherwise the host opens the file with the access mode the guest asked for (its modes are the
  host's plus one), adding O_CREAT for the guest's bit 2. Mode 0 is refused with -1.
\<close>

theorem open_modes:
  fixes h :: "'w host" and v :: vm and w :: 'w
  defines "flag \<equiv> get_gpr 5 v" and "r \<equiv> h_uninit h w"
  shows "cpu0_open h tid v w =
    (if flag AND 3 = 0 then Inr (abi_func_set_return v (- 1), w)
     else if sint r < 0 then Inr (abi_func_set_return v r, w)
     else res_bind (mem_cstr (uint (get_gpr 4 v)) v) (\<lambda>name.
       case h_open h name (if flag AND 4 \<noteq> 0 then ((flag AND 3) - 1) OR 64 else (flag AND 3) - 1) w of
         (fd, w) \<Rightarrow> Inr (abi_func_set_return v fd, w)))"
  using and_3_cases [of flag]
  by (auto simp: cpu0_open_def abi_func_param_n_def open_flags_def flag_defs Let_def ABI_PARAM_TO_ADDR_def
    flag_def r_def)

text \<open>
  C24: read. With a host whose read stores at most as many bytes as it was asked for, a read of a
  size that is not negative stores the bytes the host delivered, no more than that size, from the
  start of the guest's buffer on, and the host's result in the result register; everything else
  of the machine is as before. It goes past guest memory exactly when those bytes do not fit.
\<close>

theorem read_stays_in_buffer:
  fixes h :: "'w host" and v :: vm and w :: 'w
  defines "off \<equiv> unat (get_gpr 5 v)"
  assumes host: "\<And>fd n x. length (snd (fst (h_read h fd n x))) \<le> unat n"
    and size: "abi_func_param_n v tid 3 = Inr sz" "0 \<le> sint sz"
  shows "case h_read h (get_gpr 4 v) (scast sz) w of ((ret, bs), w') \<Rightarrow>
    length bs \<le> unat sz \<and>
    cpu0_read h tid v w =
      (if bs = [] \<or> off + length bs \<le> vm_size v
       then Inr (set_gpr 3 (ucast ret)
                   (v\<lparr>mem := (mem v)\<lparr>m_data := store_bytes (m_data (mem v)) off bs\<rparr>\<rparr>), w')
       else Inl (MemFault (int off)))"
proof -
  obtain ret bs x where r: "h_read h (get_gpr 4 v) (scast sz) w = ((ret, bs), x)"
    by (metis prod.exhaust)
  have "unat (scast sz :: u64) = unat sz"
    using uint_scast_u64 [of sz] uint_of_sint [of sz] size(2) by (simp add: unat_eq_nat_uint)
  then have len: "length bs \<le> unat sz" using host [of "get_gpr 4 v" "scast sz" w] r by simp
  have nil: "store_bytes m a [] = m" for m a by (rule ext) (auto simp: store_bytes_def)
  have off: "ABI_PARAM_TO_ADDR (get_gpr 5 v) = int off" by (simp add: off_def ABI_PARAM_TO_ADDR_def)
  have "mem_write_bytes (int off) bs v =
      (if bs = [] \<or> off + length bs \<le> vm_size v
       then Inr (v\<lparr>mem := (mem v)\<lparr>m_data := store_bytes (m_data (mem v)) off bs\<rparr>\<rparr>)
       else Inl (MemFault (int off)))"
    unfolding mem_write_bytes_def in_mem_int by (auto simp: nil)
  then show ?thesis
    using len size(1) r by (simp add: cpu0_read_def off abi_func_param_n_def abi_func_set_return_def)
qed

lemma sample_host_read:
  "length (snd (fst (h_read sample_host fd n x))) \<le> unat n"
  by (simp add: sample_host_def Let_def)

text \<open>A read of up to four bytes to offset 100; the size is the parameter on the stack.\<close>

definition read_vm :: vm where
  "read_vm = (vm_regs [0, 0, 0, 0, 3, 100])\<lparr>mem :=
     (mem (vm_regs [0, 0, 0, 0, 3, 100]))\<lparr>m_data := store_le (\<lambda>_. 0) 8 4 4\<rparr>\<rparr>"

theorem read_stays_in_buffer_witness:
  "\<exists>v'. cpu0_read sample_host 0 read_vm () = Inr (v', ()) \<and> get_gpr 3 v' = 4 \<and>
     load_bytes (m_data (mem v')) 100 4 = [1, 2, 3, 4]"
proof -
  have g: "get_gpr 4 read_vm = 3" "get_gpr 5 read_vm = 100"
    by (simp_all add: read_vm_def get_gpr_def vm_regs_def)
  have sz: "vm_size read_vm = 256" by (simp add: read_vm_def vm_size_def vm_regs_def)
  have p: "abi_func_param_n read_vm 0 3 = Inr 4"
    by (simp add: abi_func_param_n_def MAX_THREAD_def mem_read_def in_mem_def vm_size_def read_vm_def vm_regs_def mem_simps)
  have h: "h_read sample_host 3 4 () = ((4, [1, 2, 3, 4]), ())"
    by (simp add: sample_host_def Let_def upt_rec)
  show ?thesis
    using read_stays_in_buffer [OF sample_host_read p, of "()"] by (simp add: g h sz frame_simps mem_simps)
qed

section \<open>Parameters on the stack\<close>

text \<open>
  C23: A third parameter. What the caller stores at offset 8 from its stack pointer and leaves
  there when it calls is what a host call made by the callee receives as its third parameter,
  wherever the callee has moved its own stack pointer meanwhile.
\<close>

theorem stack_parameter:
  assumes store: "exec_ST d v = Inr v1" and at: "rb d = SP" "sint (c16 d) = 8" and tid: "tid < MAX_THREAD"
  shows "abi_func_param_n (set_gpr SP x (exec_JSUB j tid v1)) tid 3 = Inr (get_gpr (ra d) v)"
proof -
  let ?v2 = "set_gpr SP x (exec_JSUB j tid v1)"
  have sp: "get_gpr SP v1 = get_gpr SP v"
    using store by (simp add: exec_ST_def mem_write_gpr)
  have prev: "t_prev_sp (threads ?v2 tid) = get_gpr SP v"
    by (simp add: exec_JSUB_def Let_def frame_simps jump_rel_def sp) (simp add: sp reg_defs)
  have "mem ?v2 = mem v1" by (simp add: exec_JSUB_def Let_def frame_simps jump_rel_def)
  then have "mem_read 4 off ?v2 = mem_read 4 off v1" for off
    by (simp add: mem_read_def in_mem_def vm_size_def)
  moreover have "mem_read 4 (sint (get_gpr SP v) + 8) v1 = Inr (unat (get_gpr (ra d) v))"
    using mem_read_write_same [OF store [unfolded exec_ST_def]] at by (simp add: ea_def)
  ultimately show ?thesis using tid prev by (simp add: abi_func_param_n_def add.commute [of 8])
qed

definition store_arg :: operands where
  "store_arg = (operands3 6 SP 0)\<lparr>c16 := 8\<rparr>"

theorem stack_parameter_witness:
  "abi_func_param_n
     (set_gpr SP 32 (exec_JSUB (operands3 0 0 0) 0
       (case exec_ST store_arg (vm_regs [0, 0, 0, 0, 0, 0, 77, 0, 0, 0, 0, 0, 0, 64]) of
          Inr v \<Rightarrow> v | Inl _ \<Rightarrow> vm_regs []))) 0 3 = Inr 77"
proof -
  let ?v = "vm_regs [0, 0, 0, 0, 0, 0, 77, 0, 0, 0, 0, 0, 0, 64]"
  have a: "rb store_arg = SP" "sint (c16 store_arg) = 8" "ra store_arg = 6"
    by (simp_all add: store_arg_def)
  obtain v1 where v1: "exec_ST store_arg ?v = Inr v1"
    using a by (simp add: exec_ST_def mem_write_def in_mem_def ea_def SP_def)
  show ?thesis
    using stack_parameter [OF v1 a(1,2), of 0 32 "operands3 0 0 0"] v1 a(3)
    by (simp add: MAX_THREAD_def)
qed

section \<open>printf\<close>

definition printf_args :: "vm \<Rightarrow> nat \<Rightarrow> 'w host \<Rightarrow> byte list \<Rightarrow> 'w \<Rightarrow> (byte list \<times> nat \<times> 'w) res" where
  "printf_args v tid h buf w = printf_loop h v tid buf 0 (unat (get_gpr 4 v)) 1 w"

lemma cpu0_printf_args:
  "cpu0_printf h tid v w =
     res_bind (printf_args v tid h (replicate MAX_CACHE_BUFF_SIZE (ucast (h_uninit h w))) w) (\<lambda>(buf, n, w).
       if 1 \<le> n \<and> n \<le> MAX_CACHE_BUFF_SIZE then
         (case h_puts h (takeWhile (\<lambda>b. b \<noteq> 0) (buf[n - 1 := 0])) w of
            (ret, w) \<Rightarrow> Inr (abi_func_set_return v ret, w))
       else Inl (IndexFault (int n - 1)))"
  by (simp only: cpu0_printf_def printf_args_def abi_func_param_n_def simp_thms if_True res_bind.simps
      ABI_PARAM_TO_ADDR_def unat_eq_nat_uint)

lemma printf_args_empty:
  "mem_byte (unat (get_gpr 4 v)) v = Inr 0 \<Longrightarrow> printf_args v tid h buf w = Inr (buf, 0, w)"
  unfolding printf_args_def by (subst printf_loop.simps) simp

lemma printf_args_plain:
  assumes "mem_byte (unat (get_gpr 4 v)) v = Inr c" "c \<noteq> 0" "c \<noteq> 0x25"
    "mem_byte (unat (get_gpr 4 v) + 1) v = Inr c2"
  shows "printf_args v tid h buf w = Inr (buf[0 := c], 1, w)"
proof -
  have "printf_loop h v tid buf 0 (unat (get_gpr 4 v)) 1 w =
      printf_loop h v tid (buf[0 := c]) 1 (unat (get_gpr 4 v) + 1) 1 w"
    using assms by (subst printf_loop.simps) simp
  also have "\<dots> = Inr (buf[0 := c], 1, w)"
    using assms by (subst printf_loop.simps) simp
  finally show ?thesis by (simp add: printf_args_def)
qed

text \<open>A conversion of \<open>out\<close>, or of nothing (\<open>None\<close>, the default case of the switch).\<close>

lemma printf_args_conversion:
  assumes "mem_byte (unat (get_gpr 4 v)) v = Inr 0x25" "mem_byte (unat (get_gpr 4 v) + 1) v = Inr t"
    and "conversion t (get_gpr 5 v) v = Inr (Some out)" 
    and "mem_byte (unat (get_gpr 4 v) + 2) v = Inr c3" "out = [] \<Longrightarrow> c3 = 0"
  shows "printf_args v tid h buf w = Inr (snprintf_at buf 0 out, length out, w)"
proof -
  have stop: "\<not> length out < (if c3 \<noteq> 0 then 1 else 0)" using assms(5) by (cases out) auto
  have two: "abi_func_param_n v tid (1 + 1) = Inr (get_gpr 5 v)" by (simp add: abi_func_param_n_def)
  have "printf_loop h v tid buf 0 (unat (get_gpr 4 v)) 1 w =
      printf_loop h v tid (snprintf_at buf 0 out) (length out) (unat (get_gpr 4 v) + 2) 2 w"
    using assms(1-3) two by (subst printf_loop.simps) simp
  also have "\<dots> = Inr (snprintf_at buf 0 out, length out, w)"
    using assms(4) stop by (subst printf_loop.simps) simp
  finally show ?thesis by (simp add: printf_args_def)
qed

lemma printf_args_unsupported:
  assumes "mem_byte (unat (get_gpr 4 v)) v = Inr 0x25" "mem_byte (unat (get_gpr 4 v) + 1) v = Inr t"
    and "conversion t (get_gpr 5 v) v = Inr None" "mem_byte (unat (get_gpr 4 v) + 2) v = Inr 0"
  shows "\<exists>w'. printf_args v tid h buf w = Inr (buf, 0, w')"
proof -
  have two: "abi_func_param_n v tid (1 + 1) = Inr (get_gpr 5 v)" by (simp add: abi_func_param_n_def)
  have "printf_loop h v tid buf 0 (unat (get_gpr 4 v)) 1 w =
      printf_loop h v tid buf 0 (unat (get_gpr 4 v) + 2) 2
        (h_print h (ascii ''not supported printf format '' @ [t, 10]) w)"
    using assms(1-3) two by (subst printf_loop.simps) simp
  also have "\<dots> = Inr (buf, 0, h_print h (ascii ''not supported printf format '' @ [t, 10]) w)"
    using assms(4) by (subst printf_loop.simps) simp
  finally show ?thesis by (simp add: printf_args_def)
qed

lemma printf_args_fault:
  assumes "mem_byte (unat (get_gpr 4 v)) v = Inr 0x25" "mem_byte (unat (get_gpr 4 v) + 1) v = Inr t"
    and "conversion t (get_gpr 5 v) v = Inl e"
  shows "printf_args v tid h buf w = Inl e"
proof -
  have two: "abi_func_param_n v tid (1 + 1) = Inr (get_gpr 5 v)" by (simp add: abi_func_param_n_def)
  show ?thesis unfolding printf_args_def using assms two by (subst printf_loop.simps) simp
qed

text \<open>What \<open>puts\<close> gets: the text without its last character, up to a NUL that \<open>%c\<close> has written.\<close>

lemma snprintf_cut:
  assumes "out \<noteq> []" "length out \<le> MAX_CACHE_BUFF_SIZE"
  shows "takeWhile (\<lambda>b. b \<noteq> 0) ((snprintf_at buf 0 out)[length out - 1 := 0]) = takeWhile (\<lambda>b. b \<noteq> 0) (butlast out)"
proof -
  have stop: "takeWhile (\<lambda>b. b \<noteq> 0) (xs @ 0 # ys) = takeWhile (\<lambda>b. b \<noteq> 0) xs" for xs ys :: "byte list"
    by (induction xs) auto
  have l: "length out - 1 = length (butlast out)" by simp
  have "\<exists>x rest. snprintf_at buf 0 out = butlast out @ x # rest"
  proof (cases "length out < MAX_CACHE_BUFF_SIZE")
    case True
    then have "snprintf_at buf 0 out = butlast out @ last out # 0 # drop (Suc (length out)) buf"
      using assms(1) by (simp add: snprintf_at_def Let_def)
    then show ?thesis by blast
  next
    case False
    then have e: "length out = MAX_CACHE_BUFF_SIZE" using assms(2) by simp
    have "snprintf_at buf 0 out = butlast out @ 0 # drop (length out) buf"
      using assms(1) by (simp add: snprintf_at_def Let_def butlast_conv_take e) (simp add: MAX_CACHE_BUFF_SIZE_def)
    then show ?thesis by blast
  qed
  then obtain x rest where "snprintf_at buf 0 out = butlast out @ x # rest" by blast
  then have "(snprintf_at buf 0 out)[length out - 1 := 0] = butlast out @ 0 # rest"
    unfolding l by (simp add: list_update_append)
  then show ?thesis by (simp add: stop)
qed

text \<open>
  C32: printf. The loop bound is a truth value, so the loop ends with the first piece of the format
  that writes anything, and the last character of that piece is then erased. A format that starts
  with an ordinary character prints nothing but the newline of puts; one that starts with a
  conversion prints the text of that conversion without its last character, unless a string is
  longer than the buffer of 4096 bytes, where the terminator is stored past its end; and where
  nothing was written (the empty format, or a single conversion that is unsupported or of the
  empty string), it is stored before the buffer.
\<close>

theorem printf_one_piece:
  assumes "mem_byte (unat (get_gpr 4 v)) v = Inr c"
    and "mem_byte (unat (get_gpr 4 v) + 1) v = Inr c2" "mem_byte (unat (get_gpr 4 v) + 2) v = Inr c3"
    and "c = 0x25 \<Longrightarrow> conversion c2 (get_gpr 5 v) v \<in> {Inr None, Inr (Some [])} \<Longrightarrow> c3 = 0"
  shows "cpu0_printf h tid v w =
    (if c = 0 then Inl (IndexFault (- 1))
     else
       (case (if c = 0x25 then conversion c2 (get_gpr 5 v) v else Inr (Some [c])) of
          Inl e \<Rightarrow> Inl e
        | Inr None \<Rightarrow> Inl (IndexFault (- 1))
        | Inr (Some out) \<Rightarrow>
            if out = [] then Inl (IndexFault (- 1))
            else if 4096 < length out then Inl (IndexFault (int (length out) - 1))
            else
              (case h_puts h (takeWhile (\<lambda>b. b \<noteq> 0) (butlast out)) w of
                 (r, w) \<Rightarrow> Inr (abi_func_set_return v r, w))))"
proof -
  consider "c = 0" | "c \<noteq> 0" "c \<noteq> 0x25" | e where "c = 0x25" "conversion c2 (get_gpr 5 v) v = Inl e"
    | "c = 0x25" "conversion c2 (get_gpr 5 v) v = Inr None"
    | out where "c = 0x25" "conversion c2 (get_gpr 5 v) v = Inr (Some out)"
    by (metis old.sum.exhaust option.exhaust)
  then show ?thesis
  proof cases
    case 1
    then show ?thesis using assms(1) by (simp add: cpu0_printf_args printf_args_empty)
  next
    case 2
    have "takeWhile (\<lambda>b. b \<noteq> 0) (buf[0 := 0]) = []" if "buf \<noteq> []" for buf :: "byte list"
      using that by (cases buf) auto
    moreover have "printf_args v tid h buf w = Inr (buf[0 := c], 1, w)" for buf
      by (rule printf_args_plain [OF assms(1) 2 assms(2)])
    ultimately show ?thesis
      using 2 by (simp add: cpu0_printf_args MAX_CACHE_BUFF_SIZE_def)
  next
    case (3 e)
    have "printf_args v tid h buf w = Inl e" for buf
      using assms(1,2) 3 by (intro printf_args_fault) auto
    then show ?thesis using 3 by (simp add: cpu0_printf_args)
  next
    case 4
    then have z: "c3 = 0" using assms(4) by simp
    then obtain w' where "printf_args v tid h (replicate MAX_CACHE_BUFF_SIZE (ucast (h_uninit h w))) w =
        Inr (replicate MAX_CACHE_BUFF_SIZE (ucast (h_uninit h w)), 0, w')"
      using printf_args_unsupported [of v c2 tid h _ w] 4 assms(1-3) by auto
    then show ?thesis using 4 by (simp add: cpu0_printf_args)
  next
    case (5 out)
    have "printf_args v tid h buf w = Inr (snprintf_at buf 0 out, length out, w)" for buf
    proof (rule printf_args_conversion [OF _ assms(2) 5(2) assms(3)])
      show "mem_byte (unat (get_gpr 4 v)) v = Inr 0x25" using assms(1) 5(1) by simp
      show "out = [] \<Longrightarrow> c3 = 0" using assms(4) 5 by simp
    qed
    then show ?thesis
      using 5 snprintf_cut [of out] by (auto simp: cpu0_printf_args MAX_CACHE_BUFF_SIZE_def Suc_le_eq)
  qed
qed

definition vm_format :: "byte list \<Rightarrow> u32 \<Rightarrow> vm" where
  "vm_format fmt x = (vm_regs [0, 0, 0, 0, 100, x])\<lparr>mem :=
     (mem (vm_regs []))\<lparr>m_data := store_bytes (\<lambda>_. 0) 100 fmt\<rparr>\<rparr>"

text \<open>\<open>printf("%d", 1234)\<close> prints \<open>123\<close>.\<close>

theorem printf_one_piece_witness:
  "cpu0_printf sample_host 0 (vm_format [0x25, 0x64] 1234) () =
     (case h_puts sample_host [0x31, 0x32, 0x33] () of
        (r, w) \<Rightarrow> Inr (abi_func_set_return (vm_format [0x25, 0x64] 1234) r, w))"
proof -
  let ?v = "vm_format [0x25, 0x64] 1234"
  have r: "get_gpr 4 ?v = 100" "get_gpr 5 ?v = 1234"
    using vm_regs_simps(1) [of 4 "[0, 0, 0, 0, 100, 1234]"] vm_regs_simps(1) [of 5 "[0, 0, 0, 0, 100, 1234]"]
    by (simp_all add: vm_format_def get_gpr_def)
  have m: "mem_byte 100 ?v = Inr 0x25" "mem_byte 101 ?v = Inr 0x64" "mem_byte 102 ?v = Inr 0"
    by (simp_all add: mem_byte_def vm_format_def vm_size_def store_bytes_def)
      (simp_all add: vm_regs_def)
  have "fmt_d 1234 = [0x31, 0x32, 0x33, 0x34]"
    by (simp add: fmt_d_def fmt_unsigned_def digits.simps digit_char_def)
  then show ?thesis
    using printf_one_piece [of ?v "0x25" "0x64" 0 sample_host 0 "()"] m r by (simp add: conversion_def)
qed

end
