(* ===== verification/Rt_Stubs.thy ===== *)
theory Rt_Stubs
  imports Api_Correct
begin

text \<open>
  The guest side of the host calls, \<open>rtlib/libs/{base.h,api.h,brk.c,file.c,printf.c,std.c}\<close>: each
  function is one \<open>SSC\<close> instruction with its number and a read of the result register. The
  compiler has put the arguments where the calling convention wants them; the result goes
  through a local variable of the function, which is not part of the model.
\<close>

definition API_PRINTF :: int where "API_PRINTF = 1"
definition API_BRK :: int where "API_BRK = 2"
definition API_SBRK :: int where "API_SBRK = 3"
definition API_OPEN :: int where "API_OPEN = 4"
definition API_READ :: int where "API_READ = 5"
definition API_WRITE :: int where "API_WRITE = 6"
definition API_CLOSE :: int where "API_CLOSE = 7"
definition API_TIME :: int where "API_TIME = 9"

lemmas api_guest_defs = API_PRINTF_def API_BRK_def API_SBRK_def API_OPEN_def API_READ_def
  API_WRITE_def API_CLOSE_def API_TIME_def

type_synonym 'w guest_call = "'w host \<Rightarrow> nat \<Rightarrow> vm \<Rightarrow> 'w \<Rightarrow> (u32 \<times> vm \<times> 'w) res"

definition ssc_operands :: "int \<Rightarrow> operands" where
  "ssc_operands i = \<lparr>opc = OPC_SSC, ra = 0, rb = 0, rc = 0, c12 = 0, c16 = word_of_int i, c24 = word_of_int i\<rparr>"

definition RT_API_WITH_RET :: "int \<Rightarrow> 'w guest_call" where
  "RT_API_WITH_RET i h tid v w =
     res_bind (exec_inst (ssc_operands i) h tid v w) (\<lambda>(v, w). Inr (get_gpr 3 v, v, w))"

definition rt_sbrk :: "'w guest_call" where "rt_sbrk = RT_API_WITH_RET API_SBRK"
definition rt_brk :: "'w guest_call" where "rt_brk = RT_API_WITH_RET API_BRK"
definition rt_open :: "'w guest_call" where "rt_open = RT_API_WITH_RET API_OPEN"
definition rt_read :: "'w guest_call" where "rt_read = RT_API_WITH_RET API_READ"
definition rt_write :: "'w guest_call" where "rt_write = RT_API_WITH_RET API_WRITE"
definition rt_close :: "'w guest_call" where "rt_close = RT_API_WITH_RET API_CLOSE"
definition rt_lseek :: "'w guest_call" where "rt_lseek = RT_API_WITH_RET API_WRITE"
definition rt_printf :: "'w guest_call" where "rt_printf = RT_API_WITH_RET API_PRINTF"
definition rt_time :: "'w guest_call" where "rt_time = RT_API_WITH_RET API_TIME"

lemmas rt_defs = rt_sbrk_def rt_brk_def rt_open_def rt_read_def rt_write_def rt_close_def
  rt_lseek_def rt_printf_def rt_time_def

section \<open>The guest's functions and the host's\<close>

text \<open>What the guest sees of a host call: its result register and the new machine.\<close>

definition served_by :: "'w api \<Rightarrow> 'w guest_call" where
  "served_by f h tid v w = res_bind (f h tid v w) (\<lambda>(v, w). Inr (get_gpr 3 v, v, w))"

lemma ssc_call:
  assumes "- 32768 \<le> i" "i < 32768"
  shows "RT_API_WITH_RET i = served_by (call_api i)"
proof -
  have "sint (word_of_int i :: u32) = i" using assms by (intro sint_word_of_int) auto
  then show ?thesis
    by (simp add: fun_eq_iff RT_API_WITH_RET_def served_by_def exec_inst_def ssc_operands_def)
qed

lemma call_api_numbers:
  "call_api 1 = cpu0_printf" "call_api 2 = cpu0_brk" "call_api 3 = cpu0_sbrk" "call_api 4 = cpu0_open"
  "call_api 5 = cpu0_read" "call_api 6 = cpu0_write" "call_api 7 = cpu0_close"
  "call_api 8 = cpu0_lseek" "call_api 9 = cpu0_time"
  by (simp_all add: fun_eq_iff call_api_def api_func_def api_id_defs)

lemma call_api_outside: "i < 1 \<or> 9 < i \<Longrightarrow> call_api i h tid v w = Inl (ApiFault i)"
  by (auto simp: call_api_def api_func_def api_id_defs)

text \<open>
  C26: Numbers of the host calls. Every function of the guest's library is served by the host
  function of its name, except lseek: its stub carries the number of write, so a guest's lseek
  writes to the file.
\<close>

theorem stubs_and_host:
  "rt_printf = served_by cpu0_printf \<and> rt_brk = served_by cpu0_brk \<and> rt_sbrk = served_by cpu0_sbrk \<and>
   rt_open = served_by cpu0_open \<and> rt_read = served_by cpu0_read \<and> rt_write = served_by cpu0_write \<and>
   rt_close = served_by cpu0_close \<and> rt_time = served_by cpu0_time \<and>
   rt_lseek = served_by cpu0_write"
  by (simp add: rt_defs api_guest_defs ssc_call call_api_numbers)

text \<open>
  Unassigned host calls. A system call with any number outside 1 to 9 is an indirect call
  through a null entry of the table or through memory outside the table.
\<close>

theorem unassigned_calls:
  assumes "opc d = OPC_SSC" "sint (c16 d) < 1 \<or> 9 < sint (c16 d)"
  shows "exec_inst d h tid v w = Inl (ApiFault (sint (c16 d)))"
  using assms by (simp add: exec_inst_def call_api_outside)

theorem unassigned_calls_witness:
  "exec_inst (ssc_operands 10) sample_host 0 (vm_regs []) () = Inl (ApiFault 10)"
  using unassigned_calls [of "ssc_operands 10" sample_host 0 "vm_regs []" "()"] by (simp add: ssc_operands_def)

end
