(* ===== verification/Elf.thy ===== *)
theory Elf
  imports Machine
begin

text \<open>
  The program loader and the symbol table, \<open>simulator/elf_load.c\<close>. The record layouts are those
  of 32-bit little-endian ELF in \<open>elf.h\<close>; a file is what the host's \<open>lseek\<close> and \<open>read\<close> deliver.
\<close>

section \<open>The records of the file\<close>

definition field :: "byte list \<Rightarrow> nat \<Rightarrow> nat \<Rightarrow> nat" where
  "field bs off n = le_val (take n (drop off bs))"

definition field32 :: "byte list \<Rightarrow> nat \<Rightarrow> u32" where
  "field32 bs off = of_nat (field bs off 4)"

record ehdr =
  e_entry :: u32
  e_phoff :: u32
  e_shoff :: u32
  e_phnum :: nat
  e_shnum :: nat

definition parse_ehdr :: "byte list \<Rightarrow> ehdr" where
  "parse_ehdr bs =
    \<lparr>e_entry = field32 bs 24, e_phoff = field32 bs 28, e_shoff = field32 bs 32,
     e_phnum = field bs 44 2, e_shnum = field bs 48 2\<rparr>"

record phdr =
  p_type :: u32
  p_offset :: u32
  p_vaddr :: u32
  p_filesz :: u32
  p_memsz :: u32
  p_align :: u32

definition parse_phdr :: "byte list \<Rightarrow> phdr" where
  "parse_phdr bs =
    \<lparr>p_type = field32 bs 0, p_offset = field32 bs 4, p_vaddr = field32 bs 8,
     p_filesz = field32 bs 16, p_memsz = field32 bs 20, p_align = field32 bs 28\<rparr>"

record shdr =
  sh_type :: u32
  sh_offset :: u32
  sh_size :: u32
  sh_link :: u32
  sh_entsize :: u32

definition parse_shdr :: "byte list \<Rightarrow> shdr" where
  "parse_shdr bs =
    \<lparr>sh_type = field32 bs 4, sh_offset = field32 bs 16, sh_size = field32 bs 20,
     sh_link = field32 bs 24, sh_entsize = field32 bs 36\<rparr>"

definition parse_sym :: "byte list \<Rightarrow> elf_sym" where
  "parse_sym bs = \<lparr>st_name = field32 bs 0, st_value = field32 bs 4\<rparr>"

text \<open>An array of \<open>n\<close> records of \<open>k\<close> bytes.\<close>

definition parse_array :: "(byte list \<Rightarrow> 'a) \<Rightarrow> nat \<Rightarrow> nat \<Rightarrow> byte list \<Rightarrow> 'a list" where
  "parse_array f k n bs = map (\<lambda>i. f (take k (drop (i * k) bs))) [0..<n]"

definition PT_LOAD :: u32 where "PT_LOAD = 1"
definition SHT_SYMTAB :: u32 where "SHT_SYMTAB = 2"

section \<open>load_elf\<close>

text \<open>The loop over the program headers: whether it reached its end, the machine, \<open>addr\<close>.\<close>

primrec load_segments ::
  "'w host \<Rightarrow> u32 \<Rightarrow> phdr list \<Rightarrow> vm \<Rightarrow> u32 \<Rightarrow> 'w \<Rightarrow> (bool \<times> vm \<times> u32 \<times> 'w) res" where
  "load_segments h fd [] v addr w = Inr (True, v, addr, w)"
| "load_segments h fd (p # ps) v addr w =
     (if p_type p \<noteq> PT_LOAD then load_segments h fd ps v addr w
      else if m_end (mem v) \<le> m_start (mem v) + ucast (p_vaddr p) + ucast (p_memsz p)
      then Inr (False, v, addr, h_print h (ascii ''no memory load program'' @ [10]) w)
      else
        (case h_lseek h fd (ucast (p_offset p)) 0 w of
           (_, w) \<Rightarrow>
             (case h_read h fd (ucast (p_filesz p)) w of
                ((ret, bs), w) \<Rightarrow>
                  res_bind
                    (if bs = [] then Inr v
                     else if in_mem v (uint (p_vaddr p)) (length bs)
                     then Inr (v\<lparr>mem := (mem v)\<lparr>m_data :=
                            store_bytes (m_data (mem v)) (unat (p_vaddr p)) bs\<rparr>\<rparr>)
                     else Inl (MemFault (uint (p_vaddr p)))) (\<lambda>v.
                  if (ucast ret :: u32) \<noteq> p_filesz p
                  then Inr (False, v, addr, h_print h (ascii ''read segment failed'' @ [10]) w)
                  else
                    load_segments h fd ps v
                      ((p_vaddr p + p_memsz p + p_align p - 1) AND NOT (p_align p - 1)) w))))"

text \<open>The loop over the section headers: \<open>(i, link, symn)\<close>, with \<open>symn = 0\<close> if there is none.\<close>

fun find_symtab :: "shdr list \<Rightarrow> nat \<Rightarrow> (nat \<times> u32 \<times> u32) res" where
  "find_symtab [] i = Inr (i, 0, 0)"
| "find_symtab (s # ss) i =
     (if sh_type s = SHT_SYMTAB then
        (if sh_entsize s = 0 then Inl DivFault else Inr (i, sh_link s, sh_size s div sh_entsize s))
      else find_symtab ss (i + 1))"

text \<open>
  \<open>malloc\<close> of a table, \<open>lseek\<close> to it and \<open>read\<close> of it, for the string and the symbol table;
  \<open>None\<close> where the code jumps to \<open>failed\<close>. The result of this \<open>malloc\<close> is not tested: a \<open>read\<close>
  of some bytes into a null pointer transfers nothing and returns -1 (\<open>EFAULT\<close>), which is not the
  size of the table.
\<close>

definition load_table :: "'w host \<Rightarrow> u32 \<Rightarrow> shdr \<Rightarrow> 'w \<Rightarrow> (byte list option \<times> 'w) res" where
  "load_table h fd s w =
     (case h_malloc h (ucast (sh_size s)) w of
        ((p, _), w) \<Rightarrow>
          (case h_lseek h fd (ucast (sh_offset s)) 0 w of
             (pos, w) \<Rightarrow>
               if sint pos < 0 then Inr (None, w)
               else if p = 0 \<and> sh_size s \<noteq> 0 then Inr (None, w)
               else
                 (case h_read h fd (ucast (sh_size s)) w of
                    ((ret, bs), w) \<Rightarrow>
                      if ucast (sh_size s) \<noteq> ret then Inr (None, w) else Inr (Some bs, w))))"

definition load_symbols :: "'w host \<Rightarrow> u32 \<Rightarrow> shdr list \<Rightarrow> vm \<Rightarrow> 'w \<Rightarrow> (bool \<times> vm \<times> 'w) res" where
  "load_symbols h fd ss v w =
     res_bind (find_symtab ss 0) (\<lambda>(i, link, symn).
       if symn = 0 then Inr (False, v, w)
       else if length ss \<le> unat link then Inl (IndexFault (uint link))
       else
         res_bind (load_table h fd (ss ! unat link) w) (\<lambda>(strings, w).
           case strings of
             None \<Rightarrow> Inr (False, v, w)
           | Some strings \<Rightarrow>
               res_bind (load_table h fd (ss ! i) w) (\<lambda>(syms, w).
                 case syms of
                   None \<Rightarrow> Inr (False, v, w)
                 | Some syms \<Rightarrow>
                     Inr (True,
                       v\<lparr>elf := \<lparr>sym_addr = parse_array parse_sym 16 (length syms div 16) syms,
                                 sym_count = symn, str_addr = strings\<rparr>\<rparr>, w))))"

definition load_elf :: "'w host \<Rightarrow> u32 \<Rightarrow> vm \<Rightarrow> 'w \<Rightarrow> (u32 \<times> vm \<times> 'w) res" where
  "load_elf h fd v w =
     (let failed = (\<lambda>msg v w. Inr (- 1, v, h_print h (ascii msg @ [10]) w)) in
      case h_lseek h fd 0 0 w of
        (_, w) \<Rightarrow>
      (case h_read h fd 52 w of
        ((ret, bs), w) \<Rightarrow>
      if (ucast ret :: u32) \<noteq> 52 then failed ''load elf header failed'' v w
      else
     (let eh = parse_ehdr bs; phsize = 32 * e_phnum eh; shsize = 40 * e_shnum eh in
      case h_malloc h (of_nat phsize) w of
        ((p, _), w) \<Rightarrow>
      if p = 0 then failed ''alloc memory failed.'' v w
      else
     (case h_lseek h fd (ucast (e_phoff eh)) 0 w of
        (_, w) \<Rightarrow>
     (case h_read h fd (of_nat phsize) w of
        ((ret, bs), w) \<Rightarrow>
      if (ucast ret :: u32) \<noteq> of_nat phsize then failed ''read ph failed'' v w
      else
      res_bind (load_segments h fd (parse_array parse_phdr 32 (e_phnum eh) bs) v (h_uninit h w) w)
        (\<lambda>(ok, v, addr, w).
      if \<not> ok then Inr (- 1, v, w)
      else
     (let v = v\<lparr>mem := (mem v)\<lparr>m_brk := ucast addr\<rparr>\<rparr> in
      case h_lseek h fd (ucast (e_shoff eh)) 0 w of
        (_, w) \<Rightarrow>
     (case h_malloc h (of_nat shsize) w of
        ((q, _), w) \<Rightarrow>
      if q = 0 then failed ''no memory '' v w
      else
     (case h_read h fd (of_nat shsize) w of
        ((ret, bs), w) \<Rightarrow>
      if (ucast ret :: u32) \<noteq> of_nat shsize then failed ''read data failed'' v w
      else
      res_bind (load_symbols h fd (parse_array parse_shdr 40 (e_shnum eh) bs) v w) (\<lambda>(ok, v, w).
      if ok then Inr (e_entry eh, v, w) else Inr (- 1, v, w)))))))))))"

section \<open>elf_resolve\<close>

text \<open>\<open>strcmp(s, symbol) == 0\<close>, \<open>None\<close> when it runs out of the string table.\<close>

fun strcmp_eq :: "byte list \<Rightarrow> byte list \<Rightarrow> bool option" where
  "strcmp_eq [] cs = None"
| "strcmp_eq (b # bs) [] = Some (b = 0)"
| "strcmp_eq (b # bs) (c # cs) = (if b = c then strcmp_eq bs cs else Some False)"

function resolve_from :: "elf_info \<Rightarrow> byte list \<Rightarrow> nat \<Rightarrow> u32 res" where
  "resolve_from e symbol i =
     (if i < unat (sym_count e) then
        (if length (sym_addr e) \<le> i then Inl (IndexFault (int i))
         else
           (case strcmp_eq (drop (unat (st_name (sym_addr e ! i))) (str_addr e)) symbol of
              None \<Rightarrow> Inl (IndexFault (int (length (str_addr e))))
            | Some True \<Rightarrow> Inr (st_value (sym_addr e ! i))
            | Some False \<Rightarrow> resolve_from e symbol (i + 1)))
      else Inr (- 1))"
  by pat_completeness auto
termination
  by (relation "measure (\<lambda>(e, symbol, i). unat (sym_count e) - i)") auto

declare resolve_from.simps [simp del]

definition elf_resolve :: "vm \<Rightarrow> byte list \<Rightarrow> u32 res" where
  "elf_resolve v symbol = resolve_from (elf v) symbol 0"

end
