(* ===== verification/Vm.thy ===== *)
theory Vm
  imports Elf Api_Correct
begin

text \<open>
  The life of a virtual machine, \<open>simulator/vm.c\<close>: creation from a program file, thread set-up,
  parameters of the main thread, execution; and the program \<open>simulator/sim.c\<close> that drives it.
\<close>

definition STACK_SAFE_HOLE :: u64 where "STACK_SAFE_HOLE = 0x100"
definition O_RDWR_host :: u32 where "O_RDWR_host = 2"

section \<open>Creation\<close>

definition load_program :: "'w host \<Rightarrow> u32 \<Rightarrow> vm \<Rightarrow> 'w \<Rightarrow> (u32 \<times> vm \<times> 'w) res" where
  "load_program h fd v w =
     res_bind (load_elf h fd v w) (\<lambda>(r, v, w).
       if r = - 1 then Inr (- 1, v, h_print h (ascii ''load elf failed'' @ [10]) w)
       else Inr (0, v\<lparr>entry := r\<rparr>, w))"

text \<open>The machine after \<open>memset(vm, 0, sizeof(*vm))\<close>.\<close>

definition zero_thread :: thread_ctx where
  "zero_thread = \<lparr>t_flag = 0, t_prev_sp = 0, t_entry = 0, t_sp = 0, t_sp_end = 0\<rparr>"

definition zero_vm :: vm where
  "zero_vm =
    \<lparr>elf = \<lparr>sym_addr = [], sym_count = 0, str_addr = []\<rparr>,
     cpu = \<lparr>gpr = (\<lambda>_. 0), cpr = (\<lambda>_. 0)\<rparr>,
     mem = \<lparr>m_start = 0, m_end = 0, m_brk = 0, m_data = (\<lambda>_. 0)\<rparr>,
     entry = 0, stack_size = 0, param_count = 0, threads = (\<lambda>_. zero_thread)\<rparr>"

definition vm_init :: "'w host \<Rightarrow> vm \<Rightarrow> u32 \<Rightarrow> 'w \<Rightarrow> u32 \<times> vm \<times> 'w" where
  "vm_init h v memsize w =
     (case h_malloc h (ucast memsize) w of
        ((t, content), w) \<Rightarrow>
          if t = 0 then (- 1, v, w)
          else (0, v\<lparr>mem := (mem v)\<lparr>m_start := t, m_end := t + ucast memsize, m_data := content\<rparr>\<rparr>, w))"

definition vm_load :: "'w host \<Rightarrow> vm \<Rightarrow> u32 \<Rightarrow> 'w \<Rightarrow> (u32 \<times> vm \<times> 'w) res" where
  "vm_load h v fd w =
     res_bind (load_program h fd v w) (\<lambda>(r, v, w). Inr (if sint r < 0 then - 1 else 0, v, w))"

text \<open>\<open>vm_create\<close>; \<open>None\<close> is the null pointer. \<open>sizeof(vm_t)\<close> is a number the model passes on.\<close>

definition create_failed :: "'w host \<Rightarrow> u32 \<Rightarrow> 'w \<Rightarrow> (vm option \<times> 'w) res" where
  "create_failed h fd w = Inr (None, if 0 < sint fd then snd (h_close h fd w) else w)"

definition vm_create ::
  "'w host \<Rightarrow> u64 \<Rightarrow> byte list \<Rightarrow> u32 \<Rightarrow> u32 \<Rightarrow> 'w \<Rightarrow> (vm option \<times> 'w) res" where
  "vm_create h sizeof_vm bin memsize stacksize w =
     (case h_open h bin O_RDWR_host w of
        (fd, w) \<Rightarrow>
          if sint fd < 0 then
            create_failed h fd (h_print h (ascii ''open file failed'' @ [10]) w)
          else if stacksize * 2 < ucast STACK_SAFE_HOLE then
            create_failed h fd (h_print h (ascii ''stack size too small, at least 1024'' @ [10]) w)
          else
            (case h_malloc h sizeof_vm w of
               ((p, _), w) \<Rightarrow>
                 if p = 0 then
                   create_failed h fd (h_print h (ascii ''alloc memory failed'' @ [10]) w)
                 else
                   (case vm_init h zero_vm memsize w of
                      (r, v, w) \<Rightarrow>
                        if sint r < 0 then create_failed h fd w
                        else
                          res_bind (vm_load h v fd w) (\<lambda>(r, v, w).
                            if sint r < 0 then create_failed h fd w
                            else Inr (Some (v\<lparr>stack_size := stacksize\<rparr>), w)))))"

section \<open>Threads\<close>

definition set_thread :: "nat \<Rightarrow> (thread_ctx \<Rightarrow> thread_ctx) \<Rightarrow> vm \<Rightarrow> vm" where
  "set_thread tid f v = v\<lparr>threads := (threads v)(tid := f (threads v tid))\<rparr>"

text \<open>\<open>tid * stack_size\<close> is a 32-bit product that is then taken from a pointer.\<close>

definition vm_thread_init :: "vm \<Rightarrow> nat \<Rightarrow> u32 \<Rightarrow> (u32 \<times> vm) res" where
  "vm_thread_init v tid func_addr =
     (if tid < MAX_THREAD then
        (let top = m_end (mem v) - m_start (mem v) in
         Inr (0, set_thread tid (\<lambda>t. t\<lparr>
           t_entry := ucast func_addr,
           t_sp := top - ucast (of_nat tid * stack_size v) - STACK_SAFE_HOLE,
           t_sp_end := top - ucast ((of_nat tid + 1) * stack_size v)\<rparr>) v))
      else Inl (ThreadFault tid))"

definition vm_create_main_thread :: "'w host \<Rightarrow> vm \<Rightarrow> u32 \<Rightarrow> 'w \<Rightarrow> (u32 \<times> vm \<times> 'w) res" where
  "vm_create_main_thread h v func w =
     (let func = (if func = 0 then entry v else func) in
      res_bind (vm_thread_init v 0 func) (\<lambda>(r, v).
        if 0 < sint r then Inr (- 2, v, h_print h (ascii ''create main thread failed'' @ [10]) w)
        else Inr (0, v, w)))"

text \<open>The stack slot is \<open>(u32_t)sp + start\<close>, indexed as an array of integers.\<close>

definition vm_push_main_thread_param :: "vm \<Rightarrow> u32 \<Rightarrow> vm res" where
  "vm_push_main_thread_param v param =
     (let v = (if param_count v = 0 then set_gpr 4 param v else v);
          v = (if param_count v = 1 then set_gpr 5 param v else v)
      in res_bind (mem_write 4 (uint (ucast (t_sp (threads v 0)) :: u32) + 4 * uint (param_count v)) (unat param) v)
           (\<lambda>v. Inr (v\<lparr>param_count := param_count v + 1\<rparr>)))"

section \<open>Execution\<close>

text \<open>The loop's result, or -1 after it; the loop has no other way out than its returns.\<close>

definition vm_start :: "'w host \<Rightarrow> nat \<Rightarrow> vm \<Rightarrow> 'w \<Rightarrow> (u32 \<times> vm \<times> 'w) res option" where
  "vm_start h tid v w =
     (case run_loop h tid v w of
        None \<Rightarrow> None
      | Some (Returned r v w) \<Rightarrow> Some (Inr (r, v\<lparr>param_count := 0\<rparr>, w))
      | Some (Faulted e) \<Rightarrow> Some (Inl e)
      | Some (Running v w) \<Rightarrow> Some (Inr (- 1, v\<lparr>param_count := 0\<rparr>, w)))"

section \<open>sim.c\<close>

text \<open>One call of the main program: look a function up, make the main thread of it, push, start.\<close>

definition sim_call ::
  "'w host \<Rightarrow> byte list \<Rightarrow> u32 list \<Rightarrow> vm \<Rightarrow> 'w \<Rightarrow> (u32 \<times> vm \<times> 'w) res option" where
  "sim_call h symbol params v w =
     and_then (Some (elf_resolve v symbol)) (\<lambda>func.
     and_then (Some (vm_create_main_thread h v func w)) (\<lambda>(r, v, w).
       if r \<noteq> 0 then Some (Inr (- 1, v, h_print h (ascii ''create main thread failed'' @ [10]) w))
       else
         and_then (Some (foldl (\<lambda>r p. res_bind r (\<lambda>v. vm_push_main_thread_param v p)) (Inr v) params)) (\<lambda>v.
         and_then (vm_start h 0 v w) (\<lambda>(_, v, w). Some (Inr (0, v, w))))))"

definition sim_main :: "'w host \<Rightarrow> u64 \<Rightarrow> 'w \<Rightarrow> (u32 \<times> 'w) res option" where
  "sim_main h sizeof_vm w =
     and_then (Some (vm_create h sizeof_vm (ascii ''./lic'') (4 * 1024 * 1024) 1024 w)) (\<lambda>(pvm, w).
       case pvm of
         None \<Rightarrow> Some (Inr (- 1, h_print h (ascii ''create vm failed'' @ [10]) w))
       | Some v \<Rightarrow>
           and_then (sim_call h (ascii ''__init'') [] v w) (\<lambda>(r, v, w).
             if r \<noteq> 0 then Some (Inr (- 1, w))
             else and_then (sim_call h (ascii ''load_file'') [0] v w) (\<lambda>(r, v, w).
             if r \<noteq> 0 then Some (Inr (- 1, w))
             else and_then (sim_call h (ascii ''get_challenge_pwd'') [] v w) (\<lambda>(r, v, w).
             if r \<noteq> 0 then Some (Inr (- 1, w))
             else and_then (Some (mem_cstr (sint (get_gpr 2 v)) v)) (\<lambda>challenge.
               Some (Inr (0, h_print h (ascii ''challenge is '' @ challenge @ [10]) w)))))))"

end
