(* ===== verification/Vm_Correct.thy ===== *)
theory Vm_Correct
  imports Vm
begin

text \<open>
  Threads, parameters and calls into the guest: where the stacks lie, how parameters of the main
  thread are found again by the host, what becomes of small stacks and of unresolved symbols.
\<close>

section \<open>Stacks\<close>

lemma unat_mult_u32: "unat (x :: u32) * unat y < 4294967296 \<Longrightarrow> unat (x * y) = unat x * unat y"
  by (simp add: unat_word_ariths)

lemma unat_minus_u64: "unat (y :: u64) \<le> unat x \<Longrightarrow> unat (x - y) = unat x - unat y"
  by (simp add: unat_sub word_le_nat_alt)

lemma set_thread_simps [simp]:
  "threads (set_thread t f v) k = (if k = t then f (threads v t) else threads v k)"
  "stack_size (set_thread t f v) = stack_size v" "mem (set_thread t f v) = mem v"
  "vm_size (set_thread t f v) = vm_size v" "cpu (set_thread t f v) = cpu v"
  "param_count (set_thread t f v) = param_count v"
  by (simp_all add: set_thread_def vm_size_def)

text \<open>The part of guest memory a thread's stack may use, up to the hole above its start.\<close>

definition stack_area :: "vm \<Rightarrow> nat \<Rightarrow> nat set" where
  "stack_area v t = {unat (t_sp_end (threads v t)) ..< unat (t_sp (threads v t)) + 256}"

lemma thread_init_values:
  assumes "t < MAX_THREAD" "256 \<le> unat (stack_size v)" "32 * unat (stack_size v) \<le> vm_size v"
    and "vm_size v < 4294967296"
  shows "\<exists>v'. vm_thread_init v t f = Inr (0, v') \<and>
    v' = set_thread t (\<lambda>_. threads v' t) v \<and>
    unat (t_sp_end (threads v' t)) = vm_size v - (t + 1) * unat (stack_size v) \<and>
    unat (t_sp (threads v' t)) = vm_size v - t * unat (stack_size v) - 256 \<and>
    t_entry (threads v' t) = ucast f"
proof -
  let ?s = "unat (stack_size v)" and ?top = "m_end (mem v) - m_start (mem v)"
  have t: "t < 32" using assms(1) by (simp add: MAX_THREAD_def)
  then have "t * ?s + ?s \<le> 32 * ?s" by (metis Suc_leI add.commute mult_Suc mult_le_mono1)
  then have le: "t * ?s + ?s \<le> vm_size v" "t * ?s < 4294967296" "t * ?s + ?s < 4294967296"
    using assms by linarith+
  have n: "unat (of_nat t :: u32) = t" "unat (of_nat t + 1 :: u32) = t + 1"
    using t by (simp_all add: unat_word_ariths unat_of_nat)
  have p: "unat (ucast (of_nat t * stack_size v) :: u64) = t * ?s"
    "unat (ucast ((of_nat t + 1) * stack_size v) :: u64) = t * ?s + ?s"
    using n le by (simp_all add: unat_ucast_u64 unat_mult_u32 add.commute)
  have top: "unat ?top = vm_size v" by (simp add: vm_size_def)
  have h: "unat STACK_SAFE_HOLE = 256" by (simp add: STACK_SAFE_HOLE_def)
  have "unat (?top - ucast ((of_nat t + 1) * stack_size v)) = vm_size v - (t * ?s + ?s)"
    using unat_minus_u64 [of "ucast ((of_nat t + 1) * stack_size v)" ?top] le(1) unfolding p top by simp
  moreover have a: "unat (?top - ucast (of_nat t * stack_size v)) = vm_size v - t * ?s"
    using unat_minus_u64 [of "ucast (of_nat t * stack_size v)" ?top] le(1) unfolding p top by simp
  have "256 \<le> vm_size v - t * ?s" using le(1) assms(2) by linarith
  then have "unat (?top - ucast (of_nat t * stack_size v) - STACK_SAFE_HOLE) = vm_size v - t * ?s - 256"
    using unat_minus_u64 [of STACK_SAFE_HOLE "?top - ucast (of_nat t * stack_size v)"] unfolding a h by simp
  ultimately show ?thesis
    using assms(1) by (auto simp: vm_thread_init_def Let_def set_thread_def fun_eq_iff)
qed

text \<open>
  C11: Stacks. With stacks of at least 256 bytes that all fit the memory, the stacks of any two
  threads are disjoint parts of guest memory, in whatever order the threads are set up.
\<close>

theorem thread_stacks_disjoint:
  assumes "a < MAX_THREAD" "b < MAX_THREAD" "a \<noteq> b" "256 \<le> unat (stack_size v)"
    and "32 * unat (stack_size v) \<le> vm_size v" "vm_size v < 4294967296"
  shows "case vm_thread_init v a f of
      Inl e \<Rightarrow> False
    | Inr (r, v') \<Rightarrow>
        (case vm_thread_init v' b g of
           Inl e \<Rightarrow> False
         | Inr (r, u) \<Rightarrow> stack_area u a \<inter> stack_area u b = {} \<and>
             stack_area u a \<subseteq> {0..<vm_size u} \<and> stack_area u b \<subseteq> {0..<vm_size u})"
proof -
  let ?s = "unat (stack_size v)"
  obtain v' where v': "vm_thread_init v a f = Inr (0, v')" "v' = set_thread a (\<lambda>_. threads v' a) v"
    "unat (t_sp_end (threads v' a)) = vm_size v - (a + 1) * ?s"
    "unat (t_sp (threads v' a)) = vm_size v - a * ?s - 256"
    using thread_init_values [of a v f] assms by blast
  have same: "stack_size v' = stack_size v" "vm_size v' = vm_size v"
    by (subst v'(2), simp)+
  obtain u where u: "vm_thread_init v' b g = Inr (0, u)" "u = set_thread b (\<lambda>_. threads u b) v'"
    "unat (t_sp_end (threads u b)) = vm_size v - (b + 1) * ?s"
    "unat (t_sp (threads u b)) = vm_size v - b * ?s - 256"
    using thread_init_values [of b v' g] assms unfolding same by blast
  have ua: "threads u a = threads v' a" using assms(3) by (subst u(2)) simp
  have us: "vm_size u = vm_size v" by (subst u(2)) (simp add: same)
  have area: "stack_area u t = {vm_size v - (t + 1) * ?s ..< vm_size v - t * ?s}"
    if "t = a \<or> t = b" for t
  proof -
    have "t < 32" using that assms by (auto simp: MAX_THREAD_def)
    then have "t * ?s + ?s \<le> 32 * ?s" by (metis Suc_leI add.commute mult_Suc mult_le_mono1)
    then have "vm_size v - t * ?s - 256 + 256 = vm_size v - t * ?s" using assms by linarith
    then show ?thesis using that u v' ua by (auto simp: stack_area_def)
  qed
  have mono: "(x + 1) * ?s \<le> y * ?s" if "x < y" for x y
    using that by (intro mult_le_mono1) simp
  have "stack_area u a \<inter> stack_area u b = {}"
    unfolding area [OF disjI1 [OF refl]] area [OF disjI2 [OF refl]]
    using mono [of a b] mono [of b a] assms(3) by (cases "a < b") (auto simp: not_less)
  then show ?thesis using v'(1) u(1) area us by auto
qed

section \<open>Parameters of the main thread\<close>

definition push_all :: "vm \<Rightarrow> u32 list \<Rightarrow> vm res" where
  "push_all v ps = foldl (\<lambda>r p. res_bind r (\<lambda>v. vm_push_main_thread_param v p)) (Inr v) ps"

definition pushed :: "vm \<Rightarrow> u32 list \<Rightarrow> vm \<Rightarrow> bool" where
  "pushed v ps v' \<longleftrightarrow>
     param_count v' = of_nat (length ps) \<and> vm_size v' = vm_size v \<and> threads v' = threads v \<and>
     (\<forall>j < length ps. mem_read 4 (int (unat (t_sp (threads v 0)) + 4 * j)) v' = Inr (unat (ps ! j))) \<and>
     (0 < length ps \<longrightarrow> get_gpr 4 v' = ps ! 0) \<and> (1 < length ps \<longrightarrow> get_gpr 5 v' = ps ! 1)"

lemma vm_size_set [simp]:
  "vm_size (set_gpr k x v) = vm_size v" "vm_size (set_cpr k x v) = vm_size v"
  "vm_size (set_prev_sp t x v) = vm_size v" "vm_size (v\<lparr>param_count := n\<rparr>) = vm_size v"
  by (simp_all add: vm_size_def frame_simps)

lemma mem_read_set [simp]:
  "mem_read n off (set_gpr k x v) = mem_read n off v" "mem_read n off (set_cpr k x v) = mem_read n off v"
  "mem_read n off (set_prev_sp t x v) = mem_read n off v"
  "mem_read n off (v\<lparr>param_count := c\<rparr>) = mem_read n off v"
  by (simp_all add: mem_read_def in_mem_def frame_simps)

lemma get_gpr_param_count [simp]: "get_gpr k (v\<lparr>param_count := c\<rparr>) = get_gpr k v"
  by (simp add: get_gpr_def)

lemma push_one:
  assumes p: "pushed v ps u" and sp: "unat (t_sp (threads v 0)) < 4294967296"
    and room: "unat (t_sp (threads v 0)) + 4 * Suc (length ps) \<le> vm_size v" and len: "length ps < 4294967296"
  shows "\<exists>u'. vm_push_main_thread_param u x = Inr u' \<and> pushed v (ps @ [x]) u'"
proof -
  let ?sp = "unat (t_sp (threads v 0))" and ?n = "length ps"
  define u1 where "u1 = (if param_count u = 0 then set_gpr 4 x u else u)"
  define u2 where "u2 = (if param_count u1 = 1 then set_gpr 5 x u1 else u1)"
  have pc: "unat (param_count u) = ?n" using p len by (simp add: pushed_def unat_of_nat)
  have 1: "param_count u1 = param_count u" "param_count u2 = param_count u" "threads u2 = threads v"
    "vm_size u2 = vm_size v" "mem u2 = mem u"
    using p by (simp_all add: u1_def u2_def frame_simps pushed_def)
  have off: "uint (ucast (t_sp (threads u2 0)) :: u32) + 4 * uint (param_count u2) = int (?sp + 4 * ?n)"
  proof -
    have u: "uint y = int (unat y)" for y :: u32 by simp
    show ?thesis unfolding u 1 pc unat_ucast_small [OF sp] by simp
  qed
  have "in_mem u2 (int (?sp + 4 * ?n)) 4"
    unfolding in_mem_int 1 using room by simp
  then obtain u3 where u3: "mem_write 4 (int (?sp + 4 * ?n)) (unat x) u2 = Inr u3"
    by (simp add: mem_write_def)
  have push: "vm_push_main_thread_param u x = Inr (u3\<lparr>param_count := param_count u + 1\<rparr>)"
    unfolding vm_push_main_thread_param_def Let_def u1_def [symmetric] u2_def [symmetric] off u3
    using mem_write_frame [OF u3] 1(2) by simp
  have size3: "vm_size u3 = vm_size v" using mem_write_frame [OF u3] 1(4) by (simp add: vm_size_def)
  have gprs: "get_gpr k u3 = get_gpr k u2" for k using u3 by (rule mem_write_gpr)
  have rd: "mem_read 4 (int (?sp + 4 * j)) u3 = Inr (unat ((ps @ [x]) ! j))" if "j < Suc ?n" for j
  proof (cases "j = ?n")
    case True
    then show ?thesis using mem_read_write_same [OF u3] by simp
  next
    case False
    then have "j < ?n" using that by simp
    then have "mem_read 4 (int (?sp + 4 * j)) u3 = mem_read 4 (int (?sp + 4 * j)) u2"
      by (intro mem_read_write_other [OF u3]) auto
    also have "\<dots> = mem_read 4 (int (?sp + 4 * j)) u" by (simp add: u1_def u2_def)
    also have "\<dots> = Inr (unat (ps ! j))" using p \<open>j < ?n\<close> by (simp add: pushed_def)
    finally show ?thesis using \<open>j < ?n\<close> by (simp add: nth_append)
  qed
  have z: "param_count u = 0 \<longleftrightarrow> ?n = 0" "param_count u = 1 \<longleftrightarrow> ?n = 1"
    using pc by (auto simp: word_unat_eq_iff)
  have "get_gpr 4 u3 = (ps @ [x]) ! 0"
    using p z by (cases ps) (auto simp: gprs u1_def u2_def pushed_def)
  moreover have "1 < Suc ?n \<longrightarrow> get_gpr 5 u3 = (ps @ [x]) ! 1"
  proof -
    consider "?n = 0" | "?n = 1" | "1 < ?n" by linarith
    then show ?thesis
      by cases (use p z 1(1) in \<open>auto simp: gprs u1_def u2_def pushed_def nth_append\<close>)
  qed
  ultimately have "pushed v (ps @ [x]) (u3\<lparr>param_count := param_count u + 1\<rparr>)"
    using p rd size3 mem_write_frame [OF u3] 1 by (simp add: pushed_def)
  then show ?thesis using push by blast
qed

lemma push_all_pushed:
  assumes "param_count v = 0" "unat (t_sp (threads v 0)) + 4 * length ps \<le> vm_size v"
    and "vm_size v < 4294967296"
  shows "\<exists>v'. push_all v ps = Inr v' \<and> pushed v ps v'"
  using assms(2)
proof (induction ps rule: rev_induct)
  case Nil
  then show ?case using assms(1) by (simp add: push_all_def pushed_def)
next
  case (snoc x ps)
  then obtain u where u: "push_all v ps = Inr u" "pushed v ps u" by auto
  have "\<exists>u'. vm_push_main_thread_param u x = Inr u' \<and> pushed v (ps @ [x]) u'"
    using u(2) snoc.prems assms(3) by (intro push_one) auto
  then show ?case using u(1) by (auto simp: push_all_def)
qed

text \<open>
  C9: Parameters. Parameters pushed for the main thread are the ones a host call finds, in order,
  when the thread starts and calls the function that makes the host call: the first two in
  registers 4 and 5, the others on the stack of the thread.
\<close>

theorem pushed_params_arrive:
  assumes "param_count v = 0" "unat (t_sp (threads v 0)) + 4 * length ps \<le> vm_size v"
    and "vm_size v < 2147483648" "i < length ps"
  shows "case push_all v ps of
      Inl e \<Rightarrow> False
    | Inr v' \<Rightarrow> abi_func_param_n (exec_JSUB d 0 (run_init 0 v')) 0 (of_nat i + 1) = Inr (ps ! i)"
proof -
  obtain v' where v': "push_all v ps = Inr v'" "pushed v ps v'"
    using push_all_pushed [OF assms(1,2)] assms(3) by auto
  let ?u = "exec_JSUB d 0 (run_init 0 v')" and ?sp = "t_sp (threads v 0)"
  have i: "i < 536870912" using assms by linarith
  have mem: "mem_read n off ?u = mem_read n off v'" for n off
    by (simp add: exec_JSUB_def Let_def jump_rel_def run_init_def)
  have g: "get_gpr 4 ?u = get_gpr 4 v'" "get_gpr 5 ?u = get_gpr 5 v'"
    by (simp_all add: exec_JSUB_def Let_def jump_rel_def run_init_def LR_def SP_def)
  have prev: "t_prev_sp (threads ?u 0) = ucast ?sp"
    using v'(2) by (simp add: exec_JSUB_def Let_def jump_rel_def run_init_def LR_def SP_def pushed_def)
  have sp: "unat ?sp < 2147483648" using assms by linarith
  have "sint (ucast ?sp :: u32) = int (unat (ucast ?sp :: u32))"
    using sp unat_ucast_small [of ?sp] by (intro sint_small) simp
  then have s: "sint (ucast ?sp :: u32) = int (unat ?sp)" using sp unat_ucast_small [of ?sp] by simp
  have "abi_func_param_n ?u 0 (of_nat i + 1) = Inr (ps ! i)"
  proof -
    consider "i = 0" | "i = 1" | "2 \<le> i" by linarith
    then show ?thesis
    proof cases
      case 1
      then show ?thesis using v'(2) assms(4) by (simp add: abi_func_param_n_def g pushed_def)
    next
      case 2
      then show ?thesis using v'(2) assms(4) by (simp add: abi_func_param_n_def g pushed_def)
    next
      case 3
      obtain k where k: "i = k + 2" using 3 by (metis add.commute le_Suc_ex)
      have "(of_nat i + 1 - 2) * 4 = (of_nat ((i - 1) * 4) :: u32)" by (simp add: k algebra_simps)
      then have w: "uint ((of_nat i + 1 - 2) * 4 :: u32) = int ((i - 1) * 4)"
        using i by (simp add: uint_nat unat_of_nat del: of_nat_mult)
      have n: "unat (of_nat i + 1 :: u32) = i + 1" using i by (simp add: unat_word_ariths unat_of_nat)
      have idx: "(of_nat i + 1 :: u32) \<noteq> 1" "(of_nat i + 1 :: u32) \<noteq> 2" "2 < (of_nat i + 1 :: u32)"
        using n 3 by (auto simp: word_less_nat_alt word_unat_eq_iff)
      have "sint (ucast ?sp :: u32) + 4 + uint ((of_nat i + 1 - 2) * 4 :: u32) = int (unat ?sp + 4 * i)"
        unfolding s w using 3 by simp
      then show ?thesis
        using v'(2) assms(4) idx
        by (simp only: abi_func_param_n_def if_False if_True prev mem) (simp add: pushed_def MAX_THREAD_def)
    qed
  qed
  then show ?thesis using v'(1) by simp
qed
section \<open>Concrete machines\<close>

text \<open>The machine of \<open>sim.c\<close>: 4 MB and stacks of 1 KB, nothing loaded.\<close>

definition sim_vm :: vm where
  "sim_vm = zero_vm\<lparr>mem := \<lparr>m_start = 0x7F0000000000, m_end = 0x7F0000400000, m_brk = 0, m_data = (\<lambda>_. 0)\<rparr>,
     stack_size := 1024\<rparr>"

lemma sim_vm_simps [simp]:
  "vm_size sim_vm = 4194304" "stack_size sim_vm = 1024" "param_count sim_vm = 0"
  "threads sim_vm = (\<lambda>_. zero_thread)" "get_gpr n sim_vm = 0" "get_cpr n sim_vm = 0"
  "m_data (mem sim_vm) = (\<lambda>_. 0)" "entry sim_vm = 0"
  by (simp_all add: sim_vm_def zero_vm_def vm_size_def get_gpr_def get_cpr_def)

theorem thread_stacks_disjoint_witness:
  "case vm_thread_init sim_vm 0 0x100 of
      Inl e \<Rightarrow> False
    | Inr (r, v') \<Rightarrow>
        (case vm_thread_init v' 31 0x200 of
           Inl e \<Rightarrow> False
         | Inr (r, u) \<Rightarrow> stack_area u 0 \<inter> stack_area u 31 = {})"
  using thread_stacks_disjoint [where a = 0 and b = 31 and v = sim_vm and f = 256 and g = 512]
  by (auto simp: MAX_THREAD_def split: sum.splits)

definition sim_vm_main :: vm where
  "sim_vm_main = set_thread 0 (\<lambda>t. t\<lparr>t_entry := 0x100, t_sp := 0x3FFF00, t_sp_end := 0x3FFC00\<rparr>) sim_vm"

theorem pushed_params_arrive_witness:
  "case push_all sim_vm_main [10, 20, 30, 40] of
      Inl e \<Rightarrow> False
    | Inr v' \<Rightarrow> abi_func_param_n (exec_JSUB (operands3 0 0 0) 0 (run_init 0 v')) 0 4 = Inr 40"
  using pushed_params_arrive [of sim_vm_main "[10, 20, 30, 40]" 3 "operands3 0 0 0"]
  by (simp add: sim_vm_main_def split: sum.splits)

section \<open>Small stacks\<close>

text \<open>
  A thread whose stack is 128 to 256 bytes long starts with its stack pointer at or below its limit:
  the first turn of the loop reports a stack overflow and returns -3.
\<close>

lemma small_stack_thread:
  assumes "128 \<le> unat (stack_size v)" "unat (stack_size v) \<le> 256" "256 \<le> vm_size v"
    and "vm_size v < 2147483648" "unat f + 4 \<le> vm_size v"
  shows "\<exists>v'. vm_thread_init v 0 f = Inr (0, v') \<and> result_of (run_loop h 0 v' w) = Some (- 3)"
proof -
  let ?s = "unat (stack_size v)" and ?top = "m_end (mem v) - m_start (mem v)"
  obtain v' where v': "vm_thread_init v 0 f = Inr (0, v')" "v' = set_thread 0 (\<lambda>t. t\<lparr>
      t_entry := ucast f, t_sp := ?top - ucast (0 * stack_size v) - STACK_SAFE_HOLE,
      t_sp_end := ?top - ucast (stack_size v)\<rparr>) v"
    by (simp add: vm_thread_init_def MAX_THREAD_def Let_def)
  have top: "unat ?top = vm_size v" by (simp add: vm_size_def)
  have e: "unat (t_sp_end (threads v' 0)) = vm_size v - ?s"
    using unat_minus_u64 [of "ucast (stack_size v)" ?top] assms unfolding top unat_ucast_u64
    by (simp add: v'(2))
  have p: "unat (t_sp (threads v' 0)) = vm_size v - 256"
    using unat_minus_u64 [of STACK_SAFE_HOLE ?top] assms unfolding top
    by (simp add: v'(2) STACK_SAFE_HOLE_def)
  let ?u = "run_init 0 v'"
  have pc: "get_cpr PC ?u = f" by (simp add: run_init_def v'(2)) (rule bit_word_eqI, auto simp: bit_simps)
  have sp: "get_gpr SP ?u \<le> ucast (t_sp_end (threads v' 0))"
    using e p assms by (simp add: run_init_def word_le_nat_alt unat_ucast_small)
  have size: "vm_size ?u = vm_size v" by (simp add: run_init_def v'(2))
  have "sint f = int (unat f)" using assms by (intro sint_small) simp
  then have "in_mem ?u (sint (get_cpr PC ?u)) 4" using assms(5) by (simp only: pc in_mem_int size)
  then obtain i where "mem_read 4 (sint (get_cpr PC ?u)) ?u = Inr i" by (simp add: mem_read_def)
  then have "\<exists>u x. step h (t_sp_end (threads v' 0)) 0 ?u w = Returned (- 3) u x"
    using sp by (simp add: step_def Let_def)
  then have "result_of (run_loop h 0 v' w) = Some (- 3)"
    by (auto simp: run_loop_def MAX_THREAD_def run_from.simps)
  then show ?thesis using v'(1) by blast
qed

section \<open>Symbols that are not found\<close>

text \<open>
  C34: Unresolved symbols. A symbol that is not in the table resolves to -1, which nobody checks:
  the main thread made of it has its entry at 0xFFFFFFFF and the loop's first fetch is outside
  guest memory.
\<close>

theorem unresolved_symbol_faults:
  assumes "elf_resolve v symbol = Inr (- 1)"
  shows "case vm_create_main_thread h v (- 1) w of
      Inl e \<Rightarrow> False
    | Inr (r, v', w') \<Rightarrow> r = 0 \<and> sim_call h symbol [] v w = Some (Inl (MemFault (- 1))) "
proof -
  obtain v' where v': "vm_create_main_thread h v (- 1) w = Inr (0, v', w)"
    "t_entry (threads v' 0) = ucast (- 1 :: u32)"
    by (simp add: vm_create_main_thread_def vm_thread_init_def MAX_THREAD_def Let_def)
  have "ucast (ucast (- 1 :: u32) :: u64) = (- 1 :: u32)" by (rule bit_word_eqI) (auto simp: bit_simps)
  then have "run_loop h 0 v' w = Some (Faulted (MemFault (- 1)))"
    by (simp add: run_loop_def MAX_THREAD_def run_from.simps step_def run_init_def v'(2) mem_read_def in_mem_def)
  then have "sim_call h symbol [] v w = Some (Inl (MemFault (- 1)))"
    using assms v'(1) by (simp add: sim_call_def vm_start_def)
  then show ?thesis using v'(1) by simp
qed

theorem unresolved_symbol_faults_witness:
  "sim_call sample_host (ascii ''__init'') [] sim_vm () = Some (Inl (MemFault (- 1)))"
proof -
  have "elf_resolve sim_vm (ascii ''__init'') = Inr (- 1)"
    by (simp add: elf_resolve_def resolve_from.simps sim_vm_def zero_vm_def)
  from unresolved_symbol_faults [OF this, of sample_host "()"] show ?thesis by (auto split: sum.splits)
qed

end
