(* ===== verification/Elf_Correct.thy ===== *)
theory Elf_Correct
  imports Vm_Correct
begin

text \<open>
  The loader and the symbol table: which memory a loaded program occupies, and which symbol a
  lookup finds.
\<close>

section \<open>Looking symbols up\<close>

text \<open>The name of a symbol: the string table from its offset to the next NUL.\<close>

definition sym_name :: "byte list \<Rightarrow> elf_sym \<Rightarrow> byte list" where
  "sym_name strs s = takeWhile (\<lambda>b. b \<noteq> 0) (drop (unat (st_name s)) strs)"

definition sym_terminated :: "byte list \<Rightarrow> elf_sym \<Rightarrow> bool" where
  "sym_terminated strs s \<longleftrightarrow> 0 \<in> set (drop (unat (st_name s)) strs)"

lemma strcmp_eq_takeWhile:
  "0 \<in> set bs \<Longrightarrow> 0 \<notin> set cs \<Longrightarrow> strcmp_eq bs cs = Some (takeWhile (\<lambda>b. b \<noteq> 0) bs = cs)"
  by (induction bs cs rule: strcmp_eq.induct) auto

lemma resolve_from_find:
  assumes "unat (sym_count e) \<le> length (sym_addr e)" "0 \<notin> set symbol"
    and "\<forall>s \<in> set (sym_addr e). sym_terminated (str_addr e) s"
  shows "resolve_from e symbol i = Inr
    (case find (\<lambda>s. sym_name (str_addr e) s = symbol) (drop i (take (unat (sym_count e)) (sym_addr e))) of
       Some s \<Rightarrow> st_value s | None \<Rightarrow> - 1)"
  using assms
proof (induction e symbol i rule: resolve_from.induct)
  case (1 e symbol i)
  show ?case
  proof (cases "i < unat (sym_count e)")
    case False
    then show ?thesis by (subst resolve_from.simps) simp
  next
    case True
    then have len: "i < length (sym_addr e)" using 1(2) by simp
    let ?s = "sym_addr e ! i"
    have "0 \<in> set (drop (unat (st_name ?s)) (str_addr e))"
      using 1(4) len by (auto simp: sym_terminated_def)
    then have cmp: "strcmp_eq (drop (unat (st_name ?s)) (str_addr e)) symbol =
        Some (sym_name (str_addr e) ?s = symbol)"
      using 1(3) by (simp add: strcmp_eq_takeWhile sym_name_def)
    have d: "drop i (take (unat (sym_count e)) (sym_addr e)) =
        ?s # drop (Suc i) (take (unat (sym_count e)) (sym_addr e))"
      using True len by (simp add: Cons_nth_drop_Suc [symmetric])
    show ?thesis
    proof (cases "sym_name (str_addr e) ?s = symbol")
      case True
      then show ?thesis using \<open>i < unat (sym_count e)\<close> len cmp d by (subst resolve_from.simps) simp
    next
      case False
      then have "resolve_from e symbol (i + 1) = Inr
        (case find (\<lambda>s. sym_name (str_addr e) s = symbol)
            (drop (i + 1) (take (unat (sym_count e)) (sym_addr e))) of
           Some s \<Rightarrow> st_value s | None \<Rightarrow> - 1)"
        using True len cmp by (intro 1(1)) (use 1(2,3,4) in auto)
      then show ?thesis using False True len cmp d by (subst resolve_from.simps) simp
    qed
  qed
qed

text \<open>
  C17: Symbol lookup. In a table whose names are all terminated, elf_resolve returns the value of
  the first symbol with the name asked for, and -1 when there is none.
\<close>

theorem elf_resolve_first:
  assumes "unat (sym_count (elf v)) \<le> length (sym_addr (elf v))" "0 \<notin> set symbol"
    and "\<forall>s \<in> set (sym_addr (elf v)). sym_terminated (str_addr (elf v)) s"
  shows "elf_resolve v symbol = Inr
    (case find (\<lambda>s. sym_name (str_addr (elf v)) s = symbol)
        (take (unat (sym_count (elf v))) (sym_addr (elf v))) of
       Some s \<Rightarrow> st_value s | None \<Rightarrow> - 1)"
  using resolve_from_find [OF assms, of 0] by (simp add: elf_resolve_def)

definition two_symbols :: vm where
  "two_symbols = sim_vm\<lparr>elf :=
     \<lparr>sym_addr = [\<lparr>st_name = 1, st_value = 0x40\<rparr>, \<lparr>st_name = 3, st_value = 0x80\<rparr>], sym_count = 2,
      str_addr = [0, 0x61, 0, 0x62, 0x63, 0]\<rparr>\<rparr>"

theorem elf_resolve_first_witness:
  "elf_resolve two_symbols [0x62, 0x63] = Inr 0x80"
  using elf_resolve_first [of two_symbols "[0x62, 0x63]"]
  by (simp add: two_symbols_def sym_terminated_def sym_name_def)

section \<open>Loading segments\<close>

text \<open>The bytes a program header has read from the file, and those it has room for.\<close>

definition file_bytes :: "phdr \<Rightarrow> nat set" where
  "file_bytes p = (if p_type p = PT_LOAD then {unat (p_vaddr p) ..< unat (p_vaddr p) + unat (p_filesz p)} else {})"

lemma load_segments_frame:
  assumes "\<And>fd n x. length (snd (fst (h_read h fd n x))) \<le> unat n"
    and "load_segments h fd ps v addr w = Inr (ok, v', addr', w')"
  shows "cpu v' = cpu v \<and> threads v' = threads v \<and> param_count v' = param_count v \<and> vm_size v' = vm_size v \<and>
    m_start (mem v') = m_start (mem v) \<and> m_end (mem v') = m_end (mem v) \<and>
    (\<forall>x. x \<notin> (\<Union>p \<in> set ps. file_bytes p) \<longrightarrow> m_data (mem v') x = m_data (mem v) x)"
  using assms(2)
proof (induction ps arbitrary: v addr w)
  case Nil
  then show ?case by simp
next
  case (Cons p ps)
  show ?case
  proof (cases "p_type p = PT_LOAD \<and> \<not> m_end (mem v) \<le> m_start (mem v) + ucast (p_vaddr p) + ucast (p_memsz p)")
    case False
    then show ?thesis using Cons by (auto split: if_splits)
  next
    case True
    obtain pos x where s: "h_lseek h fd (ucast (p_offset p)) 0 w = (pos, x)" by fastforce
    obtain ret bs y where r: "h_read h fd (ucast (p_filesz p)) x = ((ret, bs), y)"
      by (metis prod.exhaust)
    have len: "length bs \<le> unat (p_filesz p)"
      using assms(1) [of fd "ucast (p_filesz p)" x] r by (simp add: unat_ucast_u64)
    define u where "u = (if bs = [] then v else v\<lparr>mem := (mem v)\<lparr>m_data :=
        store_bytes (m_data (mem v)) (unat (p_vaddr p)) bs\<rparr>\<rparr>)"
    have u: "cpu u = cpu v" "threads u = threads v" "param_count u = param_count v" "vm_size u = vm_size v" "m_start (mem u) = m_start (mem v)"
      "m_end (mem u) = m_end (mem v)"
      by (simp_all add: u_def vm_size_def)
    have d: "m_data (mem u) z = m_data (mem v) z" if "z \<notin> file_bytes p" for z
      using that True len by (auto simp: u_def file_bytes_def intro!: store_bytes_outside)
    have "load_segments h fd (p # ps) v addr w = Inr (ok, v', addr', w') \<Longrightarrow>
        (if ucast ret \<noteq> p_filesz p
         then Inr (False, u, addr, h_print h (ascii ''read segment failed'' @ [10]) y)
         else load_segments h fd ps u
           ((p_vaddr p + p_memsz p + p_align p - 1) AND NOT (p_align p - 1)) y) = Inr (ok, v', addr', w')"
      using True s r by (auto simp: u_def res_bind_Inr_iff split: if_splits)
    then have run: "(if ucast ret \<noteq> p_filesz p
         then Inr (False, u, addr, h_print h (ascii ''read segment failed'' @ [10]) y)
         else load_segments h fd ps u
           ((p_vaddr p + p_memsz p + p_align p - 1) AND NOT (p_align p - 1)) y) = Inr (ok, v', addr', w')"
      using Cons.prems by blast
    show ?thesis
    proof (cases "ucast ret \<noteq> p_filesz p")
      case True
      then have "v' = u" using run by simp
      then show ?thesis using u d by simp
    next
      case False
      then have "load_segments h fd ps u
          ((p_vaddr p + p_memsz p + p_align p - 1) AND NOT (p_align p - 1)) y = Inr (ok, v', addr', w')"
        using run by simp
      from Cons.IH [OF this] show ?thesis using u d by auto
    qed
  qed
qed

text \<open>The break after the segments: the end of the last loaded one, rounded up.\<close>

definition segments_end :: "phdr list \<Rightarrow> u32 \<Rightarrow> u32" where
  "segments_end ps addr =
     foldl (\<lambda>a p. if p_type p = PT_LOAD
                    then (p_vaddr p + p_memsz p + p_align p - 1) AND NOT (p_align p - 1) else a) addr ps"

definition segment_fits :: "vm \<Rightarrow> phdr \<Rightarrow> bool" where
  "segment_fits v p \<longleftrightarrow> p_type p \<noteq> PT_LOAD \<or> unat (p_vaddr p) + unat (p_memsz p) < vm_size v"

lemma fits_check:
  assumes "m_start (mem v) \<le> m_end (mem v)" "uint (m_start (mem v)) + 8589934592 \<le> 18446744073709551616"
  shows "m_end (mem v) \<le> m_start (mem v) + ucast (x :: u32) + ucast (y :: u32) \<longleftrightarrow>
    \<not> unat x + unat y < vm_size v"
proof -
  have 1: "uint (m_start (mem v) + ucast x) = uint (m_start (mem v)) + uint x"
    using assms(2) uint_u32 [of x] by (subst uint_add_u64) (simp_all add: uint_ucast_u64)
  have "uint (m_start (mem v) + ucast x + ucast y) = uint (m_start (mem v)) + uint x + uint y"
    using assms(2) uint_u32 [of x] uint_u32 [of y] 1 by (subst uint_add_u64) (simp_all add: uint_ucast_u64)
  then have "m_end (mem v) \<le> m_start (mem v) + ucast x + ucast y \<longleftrightarrow>
      int (vm_size v) \<le> uint x + uint y"
    unfolding word_le_def vm_size_eq [OF assms(1)] by linarith
  also have "uint x + uint y = int (unat x + unat y)" by simp
  also have "int (vm_size v) \<le> int (unat x + unat y) \<longleftrightarrow> \<not> unat x + unat y < vm_size v" by linarith
  finally show ?thesis .
qed

lemma load_segments_ok:
  assumes "m_start (mem v) \<le> m_end (mem v)" "uint (m_start (mem v)) + 8589934592 \<le> 18446744073709551616"
    and "load_segments h fd ps v addr w = Inr (True, v', addr', w')"
  shows "(\<forall>p \<in> set ps. segment_fits v p) \<and> addr' = segments_end ps addr"
  using assms
proof (induction ps arbitrary: v addr w)
  case Nil
  then show ?case by (simp add: segments_end_def)
next
  case (Cons p ps)
  show ?case
  proof (cases "p_type p = PT_LOAD")
    case False
    then show ?thesis
      using Cons.IH [OF Cons.prems(1,2)] Cons.prems(3) by (simp add: segments_end_def segment_fits_def)
  next
    case True
    obtain pos x where s: "h_lseek h fd (ucast (p_offset p)) 0 w = (pos, x)" by fastforce
    obtain ret bs y where r: "h_read h fd (ucast (p_filesz p)) x = ((ret, bs), y)"
      by (metis prod.exhaust)
    have fit: "segment_fits v p"
      using Cons.prems(3) True fits_check [OF Cons.prems(1,2)]
      by (auto simp: segment_fits_def split: if_splits)
    define v1 where "v1 = v\<lparr>mem := (mem v)\<lparr>m_data := store_bytes (m_data (mem v)) (unat (p_vaddr p)) bs\<rparr>\<rparr>"
    have v1: "m_start (mem v1) = m_start (mem v)" "m_end (mem v1) = m_end (mem v)" by (simp_all add: v1_def)
    have "\<exists>u \<in> {v, v1}. load_segments h fd ps u
          ((p_vaddr p + p_memsz p + p_align p - 1) AND NOT (p_align p - 1)) y = Inr (True, v', addr', w')"
      using Cons.prems(3) True s r by (auto simp: v1_def res_bind_Inr_iff split: if_splits)
    then obtain u where u: "m_start (mem u) = m_start (mem v)" "m_end (mem u) = m_end (mem v)"
      "load_segments h fd ps u
          ((p_vaddr p + p_memsz p + p_align p - 1) AND NOT (p_align p - 1)) y = Inr (True, v', addr', w')"
      using v1 by auto
    have "segment_fits u q \<longleftrightarrow> segment_fits v q" for q by (simp add: segment_fits_def vm_size_def u)
    then show ?thesis
      using Cons.IH [OF _ _ u(3)] Cons.prems(1,2) fit True by (simp add: u segments_end_def)
  qed
qed

text \<open>
  C18: Loading. When all segments have loaded, every one of them fits guest memory with the size it
  has in memory, the break is the aligned end of the last one (whatever the variable held before,
  if there was none), and only the bytes read from the file have changed: the part of a segment
  beyond its file size, where a program expects zeros, keeps what malloc left there.
\<close>

theorem load_segments_layout:
  assumes "\<And>fd n x. length (snd (fst (h_read h fd n x))) \<le> unat n"
    and "m_start (mem v) \<le> m_end (mem v)" "uint (m_start (mem v)) + 8589934592 \<le> 18446744073709551616"
    and "load_segments h fd ps v addr w = Inr (True, v', addr', w')"
  shows "(\<forall>p \<in> set ps. segment_fits v p) \<and> addr' = segments_end ps addr \<and>
    (\<forall>x. x \<notin> (\<Union>p \<in> set ps. file_bytes p) \<longrightarrow> m_data (mem v') x = m_data (mem v) x)"
  using load_segments_ok [OF assms(2-4)] load_segments_frame [OF assms(1,4)] by blast

definition bss_segment :: phdr where
  "bss_segment = \<lparr>p_type = PT_LOAD, p_offset = 0, p_vaddr = 0x100, p_filesz = 4, p_memsz = 0x10, p_align = 0x1000\<rparr>"

theorem load_segments_layout_witness:
  "\<exists>v' w'. load_segments sample_host 3 [bss_segment] sim_vm 0 () = Inr (True, v', 0x1000, w') \<and>
     m_data (mem v') 0x104 = m_data (mem sim_vm) 0x104"
proof -
  have m: "m_start (mem sim_vm) = 0x7F0000000000" "m_end (mem sim_vm) = 0x7F0000400000"
    by (simp_all add: sim_vm_def)
  have sz: "vm_size (sim_vm\<lparr>mem := x\<rparr>) = unat (m_end x - m_start x)" for x by (simp add: vm_size_def)
  obtain v' a' w' where r: "load_segments sample_host 3 [bss_segment] sim_vm 0 () = Inr (True, v', a', w')"
    by (simp add: bss_segment_def m sample_host_def in_mem_def Let_def upt_rec)
  from load_segments_layout [OF sample_host_read _ _ r] m
  have "a' = segments_end [bss_segment] 0" "m_data (mem v') 0x104 = m_data (mem sim_vm) 0x104"
    by (auto simp: file_bytes_def bss_segment_def)
  then show ?thesis using r by (auto simp: segments_end_def bss_segment_def)
qed

end
