(* ===== verification/Elf_File.thy ===== *)
theory Elf_File
  imports Elf_Correct
begin

text \<open>
  Loading from a file: a host that serves the bytes of one file, what the loader makes of them, and
  an ELF file that loads.
\<close>

section \<open>A host that serves a file\<close>

text \<open>
  \<open>fd\<close> is the descriptor, and \<open>pos\<close> reads its position in the file off the state of the host: \<open>lseek\<close>
  with \<open>SEEK_SET\<close> to an offset of 32 bits moves it there and returns it, \<open>read\<close> delivers the bytes from there on, as many as are asked for or left, and
  \<open>malloc\<close> does not touch it.
\<close>

definition serves :: "'w host \<Rightarrow> u32 \<Rightarrow> byte list \<Rightarrow> ('w \<Rightarrow> nat) \<Rightarrow> bool" where
  "serves h fd file pos \<longleftrightarrow>
     (\<forall>off w. unat off < 4294967296 \<longrightarrow>
        fst (h_lseek h fd off 0 w) = off \<and> pos (snd (h_lseek h fd off 0 w)) = unat off) \<and>
     (\<forall>n w. fst (h_read h fd n w) =
        (of_nat (length (take (unat n) (drop (pos w) file))), take (unat n) (drop (pos w) file)) \<and>
        pos (snd (h_read h fd n w)) = pos w + length (take (unat n) (drop (pos w) file))) \<and>
     (\<forall>n w. pos (snd (h_malloc h n w)) = pos w)"

lemma serves_lseek:
  assumes "serves h fd file pos"
  shows "\<exists>w'. h_lseek h fd (ucast (off :: u32)) 0 w = (ucast off, w') \<and> pos w' = unat off"
proof -
  have "unat (ucast off :: u64) < 4294967296" by simp
  then show ?thesis using assms unfolding serves_def by (metis prod.collapse unat_ucast_u64)
qed

lemma serves_read:
  "serves h fd file pos \<Longrightarrow> \<exists>w'. h_read h fd n w =
     ((of_nat (length (take (unat n) (drop (pos w) file))), take (unat n) (drop (pos w) file)), w') \<and>
     pos w' = pos w + length (take (unat n) (drop (pos w) file))"
  unfolding serves_def by (metis prod.collapse)

lemma serves_malloc: "serves h fd file pos \<Longrightarrow> pos (snd (h_malloc h n w)) = pos w"
  unfolding serves_def by blast

text \<open>The length that \<open>read\<close> returns, compared as 32 bits with the length asked for.\<close>

lemma ucast_length_eq:
  assumes "length bs \<le> unat (n :: u32)"
  shows "(ucast (of_nat (length bs) :: u64) :: u32) = n \<longleftrightarrow> length bs = unat n"
proof -
  have l: "length bs < 4294967296" using assms unat_u32_less [of n] by linarith
  then have "unat (of_nat (length bs) :: u64) = length bs" by (simp add: unat_of_nat)
  then have "unat (ucast (of_nat (length bs) :: u64) :: u32) = length bs"
    using l by (subst unat_ucast_small) simp_all
  then show ?thesis by (metis word_unat_eq_iff)
qed

section \<open>Segments\<close>

definition segment_bytes :: "byte list \<Rightarrow> phdr \<Rightarrow> byte list" where
  "segment_bytes file p = take (unat (p_filesz p)) (drop (unat (p_offset p)) file)"

text \<open>Guest memory after the segments of a file are in it, in the order of their headers.\<close>

definition load_file :: "byte list \<Rightarrow> phdr list \<Rightarrow> mem \<Rightarrow> mem" where
  "load_file file ps m =
     foldl (\<lambda>m p. if p_type p = PT_LOAD then store_bytes m (unat (p_vaddr p)) (segment_bytes file p) else m) m ps"

lemma store_bytes_Nil [simp]: "store_bytes m a [] = m"
  by (rule ext) (auto simp: store_bytes_def)

abbreviation with_bytes :: "vm \<Rightarrow> nat \<Rightarrow> byte list \<Rightarrow> vm" where
  "with_bytes v a bs \<equiv> v\<lparr>mem := (mem v)\<lparr>m_data := store_bytes (m_data (mem v)) a bs\<rparr>\<rparr>"

text \<open>One turn of the loop over the headers, for a segment whose size in memory fits.\<close>

lemma load_segment_served:
  assumes "serves h fd file pos" "p_type p = PT_LOAD"
    and "\<not> m_end (mem v) \<le> m_start (mem v) + ucast (p_vaddr p) + ucast (p_memsz p)"
  shows "\<exists>w'. load_segments h fd (p # ps) v addr w =
    (let bs = segment_bytes file p in
     if bs \<noteq> [] \<and> vm_size v < unat (p_vaddr p) + length bs then Inl (MemFault (uint (p_vaddr p)))
     else if length bs \<noteq> unat (p_filesz p)
     then Inr (False, with_bytes v (unat (p_vaddr p)) bs, addr, h_print h (ascii ''read segment failed'' @ [10]) w')
     else load_segments h fd ps (with_bytes v (unat (p_vaddr p)) bs)
            ((p_vaddr p + p_memsz p + p_align p - 1) AND NOT (p_align p - 1)) w')"
proof -
  obtain x where s: "h_lseek h fd (ucast (p_offset p)) 0 w = (ucast (p_offset p), x)"
    "pos x = unat (p_offset p)" using serves_lseek [OF assms(1)] by fastforce
  define bs where "bs = segment_bytes file p"
  obtain y where r: "h_read h fd (ucast (p_filesz p)) x = ((of_nat (length bs), bs), y)"
    using serves_read [OF assms(1), of "ucast (p_filesz p)" x] by (auto simp: bs_def segment_bytes_def s(2))
  have l: "length bs \<le> unat (p_filesz p)" by (simp add: bs_def segment_bytes_def)
  have "uint (p_vaddr p) = int (unat (p_vaddr p))" by simp
  then have m: "in_mem v (uint (p_vaddr p)) (length bs) \<longleftrightarrow> \<not> vm_size v < unat (p_vaddr p) + length bs"
    by (simp only: in_mem_int not_less)
  have "load_segments h fd (p # ps) v addr w =
    (if bs \<noteq> [] \<and> vm_size v < unat (p_vaddr p) + length bs then Inl (MemFault (uint (p_vaddr p)))
     else if length bs \<noteq> unat (p_filesz p)
     then Inr (False, with_bytes v (unat (p_vaddr p)) bs, addr, h_print h (ascii ''read segment failed'' @ [10]) y)
     else load_segments h fd ps (with_bytes v (unat (p_vaddr p)) bs)
            ((p_vaddr p + p_memsz p + p_align p - 1) AND NOT (p_align p - 1)) y)"
    using assms(2,3) unfolding load_segments.simps s(1) prod.case r ucast_length_eq [OF l] m by auto
  then show ?thesis unfolding Let_def bs_def [symmetric] by blast
qed

lemma load_segments_served:
  assumes "serves h fd file pos" "load_segments h fd ps v addr w = Inr (True, v', addr', w')"
  shows "v' = v\<lparr>mem := (mem v)\<lparr>m_data := load_file file ps (m_data (mem v))\<rparr>\<rparr> \<and>
    (\<forall>p \<in> set ps. p_type p = PT_LOAD \<longrightarrow> length (segment_bytes file p) = unat (p_filesz p))"
  using assms(2)
proof (induction ps arbitrary: v addr w)
  case Nil
  then show ?case by (simp add: load_file_def)
next
  case (Cons p ps)
  show ?case
  proof (cases "p_type p = PT_LOAD")
    case False
    then show ?thesis using Cons.IH Cons.prems by (simp add: load_file_def)
  next
    case True
    then have fit: "\<not> m_end (mem v) \<le> m_start (mem v) + ucast (p_vaddr p) + ucast (p_memsz p)"
      using Cons.prems by (auto split: if_splits)
    obtain x a where "length (segment_bytes file p) = unat (p_filesz p)"
      "load_segments h fd ps (with_bytes v (unat (p_vaddr p)) (segment_bytes file p)) a x = Inr (True, v', addr', w')"
      using load_segment_served [OF assms(1) True fit, of ps addr w] Cons.prems
      by (auto simp: Let_def split: if_splits)
    with Cons.IH [OF this(2)] True show ?thesis by (simp add: load_file_def)
  qed
qed

section \<open>The tables of a file\<close>

definition file_ehdr :: "byte list \<Rightarrow> ehdr" where
  "file_ehdr file = parse_ehdr (take 52 file)"

definition program_headers :: "byte list \<Rightarrow> phdr list" where
  "program_headers file =
     parse_array parse_phdr 32 (e_phnum (file_ehdr file)) (drop (unat (e_phoff (file_ehdr file))) file)"

definition section_headers :: "byte list \<Rightarrow> shdr list" where
  "section_headers file =
     parse_array parse_shdr 40 (e_shnum (file_ehdr file)) (drop (unat (e_shoff (file_ehdr file))) file)"

definition section_bytes :: "byte list \<Rightarrow> shdr \<Rightarrow> byte list" where
  "section_bytes file s = take (unat (sh_size s)) (drop (unat (sh_offset s)) file)"

text \<open>The symbol table of a file: its first section of that type, with the strings of its link.\<close>

definition file_symbols :: "byte list \<Rightarrow> elf_info option" where
  "file_symbols file =
     (case find (\<lambda>s. sh_type s = SHT_SYMTAB) (section_headers file) of
        None \<Rightarrow> None
      | Some s \<Rightarrow>
          if sh_entsize s \<noteq> 0 \<and> sh_entsize s \<le> sh_size s \<and> unat (sh_link s) < length (section_headers file)
          then Some \<lparr>sym_addr = parse_array parse_sym 16 (unat (sh_size s) div 16) (section_bytes file s),
                     sym_count = sh_size s div sh_entsize s,
                     str_addr = section_bytes file (section_headers file ! unat (sh_link s))\<rparr>
          else None)"

lemma parse_array_take: "n * k \<le> m \<Longrightarrow> parse_array f k n (take m bs) = parse_array f k n bs"
proof -
  assume m: "n * k \<le> m"
  have "take k (drop (i * k) (take m bs)) = take k (drop (i * k) bs)" if "i < n" for i
  proof -
    have "Suc i * k \<le> n * k" using that by (intro mult_le_mono1) simp
    then have "i * k + k \<le> m" using m by simp
    then show ?thesis by (simp add: take_drop min_def)
  qed
  then show ?thesis by (simp add: parse_array_def)
qed

lemma length_parse_array [simp]: "length (parse_array f k n bs) = n"
  by (simp add: parse_array_def)

lemma find_symtab_find:
  assumes "find_symtab ss i = Inr (j, l, n)" "n \<noteq> 0"
  shows "\<exists>s. find (\<lambda>s. sh_type s = SHT_SYMTAB) ss = Some s \<and> i \<le> j \<and> j - i < length ss \<and> ss ! (j - i) = s \<and>
    l = sh_link s \<and> n = sh_size s div sh_entsize s \<and> sh_entsize s \<noteq> 0"
  using assms
proof (induction ss i rule: find_symtab.induct)
  case (1 i)
  then show ?case by simp
next
  case (2 s ss i)
  show ?case
  proof (cases "sh_type s = SHT_SYMTAB")
    case True
    then show ?thesis using 2 by (auto split: if_splits)
  next
    case False
    then have "find_symtab ss (i + 1) = Inr (j, l, n)" using 2(2) by simp
    from 2(1) [OF False this 2(3)]
    obtain t where t: "find (\<lambda>s. sh_type s = SHT_SYMTAB) ss = Some t" "i + 1 \<le> j" "j - (i + 1) < length ss"
      "ss ! (j - (i + 1)) = t" "l = sh_link t" "n = sh_size t div sh_entsize t" "sh_entsize t \<noteq> 0"
      by blast
    then have "j - i = Suc (j - (i + 1))" by simp
    then show ?thesis using False t by simp
  qed
qed

lemma load_table_served:
  assumes "serves h fd file pos" "load_table h fd s w = Inr (Some bs, w')"
  shows "bs = section_bytes file s \<and> length bs = unat (sh_size s)"
proof -
  obtain p m x where p: "h_malloc h (ucast (sh_size s)) w = ((p, m), x)" by (metis prod.exhaust)
  obtain y where y: "h_lseek h fd (ucast (sh_offset s)) 0 x = (ucast (sh_offset s), y)" "pos y = unat (sh_offset s)"
    using serves_lseek [OF assms(1)] by fastforce
  obtain z where z: "h_read h fd (ucast (sh_size s)) y = ((of_nat (length (section_bytes file s)), section_bytes file s), z)"
    using serves_read [OF assms(1), of "ucast (sh_size s)" y] by (auto simp: section_bytes_def y(2))
  have b: "bs = section_bytes file s" "ucast (sh_size s) = (of_nat (length bs) :: u64)"
    using assms(2) by (auto simp: load_table_def p y(1) z split: if_splits)
  have "length bs \<le> unat (sh_size s)" by (simp add: b(1) section_bytes_def)
  then have "length bs < 18446744073709551616" using unat_u32_less [of "sh_size s"] by linarith
  then have "unat (of_nat (length bs) :: u64) = length bs" by (simp add: unat_of_nat)
  then have "length bs = unat (sh_size s)" using b(2) by (metis unat_ucast_u64)
  with b(1) show ?thesis by blast
qed

lemma load_symbols_served:
  assumes "serves h fd file pos" "load_symbols h fd (section_headers file) v w = Inr (True, v', w')"
  shows "\<exists>e. file_symbols file = Some e \<and> v' = v\<lparr>elf := e\<rparr>"
proof -
  let ?ss = "section_headers file"
  obtain i l n strs x syms where f: "find_symtab ?ss 0 = Inr (i, l, n)" "n \<noteq> 0" "unat l < length ?ss"
    and t: "load_table h fd (?ss ! unat l) w = Inr (Some strs, x)" "load_table h fd (?ss ! i) x = Inr (Some syms, w')"
    and v': "v' = v\<lparr>elf := \<lparr>sym_addr = parse_array parse_sym 16 (length syms div 16) syms, sym_count = n, str_addr = strs\<rparr>\<rparr>"
    using assms(2) by (auto simp: load_symbols_def res_bind_Inr_iff split: if_splits option.splits prod.splits)
  obtain s where s: "find (\<lambda>s. sh_type s = SHT_SYMTAB) ?ss = Some s" "?ss ! i = s" "l = sh_link s"
    "n = sh_size s div sh_entsize s" "sh_entsize s \<noteq> 0"
    using find_symtab_find [OF f(1,2)] by auto
  have "sh_entsize s \<le> sh_size s"
  proof (rule ccontr)
    assume "\<not> sh_entsize s \<le> sh_size s"
    then have "unat (sh_size s div sh_entsize s) = 0" by (simp add: unat_div word_le_nat_alt)
    then show False using f(2) s(4) by (simp add: unat_eq_0)
  qed
  moreover have "strs = section_bytes file (?ss ! unat (sh_link s))" "syms = section_bytes file s"
    "length (section_bytes file s) = unat (sh_size s)"
    using load_table_served [OF assms(1) t(1)] load_table_served [OF assms(1) t(2)] s by auto
  ultimately show ?thesis using s f(3) by (simp add: file_symbols_def v')
qed

text \<open>A read of an array of \<open>n\<close> records, with the test of its length.\<close>

lemma read_array:
  assumes "serves h fd file pos" "m < 4294967296"
  shows "\<exists>w'. h_read h fd (of_nat m) w =
      ((of_nat (length (take m (drop (pos w) file))), take m (drop (pos w) file)), w') \<and>
    ((ucast (of_nat (length (take m (drop (pos w) file))) :: u64) :: u32) = of_nat m \<longleftrightarrow>
      length (take m (drop (pos w) file)) = m)"
proof -
  have "unat (of_nat m :: u64) = m" "unat (of_nat m :: u32) = m"
    using assms(2) by (simp_all add: unat_of_nat)
  then show ?thesis
    using serves_read [OF assms(1), of "of_nat m" w] ucast_length_eq [of "take m (drop (pos w) file)" "of_nat m"]
    by auto
qed

lemma phnum_less: "e_phnum (file_ehdr file) < 65536" "e_shnum (file_ehdr file) < 65536"
proof -
  have "field bs off 2 < 65536" for bs off
  proof -
    have "le_val (take 2 (drop off bs)) < 256 ^ length (take 2 (drop off bs))" by (rule le_val_less)
    also have "\<dots> \<le> 256 ^ 2" by (intro power_increasing) auto
    finally show ?thesis by (simp add: field_def)
  qed
  then show "e_phnum (file_ehdr file) < 65536" "e_shnum (file_ehdr file) < 65536"
    by (simp_all add: file_ehdr_def parse_ehdr_def)
qed

lemma load_elf_served:
  assumes h: "serves h fd file pos" and r: "load_elf h fd v w = Inr (r, v', w')" "r \<noteq> - 1"
  shows "52 \<le> length file \<and> r = e_entry (file_ehdr file) \<and>
    (\<exists>a x u addr y e. load_segments h fd (program_headers file) v a x = Inr (True, u, addr, y) \<and>
       file_symbols file = Some e \<and> v' = u\<lparr>mem := (mem u)\<lparr>m_brk := ucast addr\<rparr>, elf := e\<rparr>)"
proof -
  let ?eh = "file_ehdr file"
  let ?pn = "32 * e_phnum ?eh" and ?sn = "40 * e_shnum ?eh"
  have small: "?pn < 4294967296" "?sn < 4294967296" using phnum_less [of "file"] by simp_all
  obtain w0 where s0: "h_lseek h fd 0 0 w = (0, w0)" "pos w0 = 0" using serves_lseek [OF h, of 0] by auto
  obtain w1 where r0: "h_read h fd 52 w0 = ((of_nat (length (take 52 file)), take 52 file), w1)"
    "(ucast (of_nat (length (take 52 file)) :: u64) :: u32) = 52 \<longleftrightarrow> length (take 52 file) = 52"
    using read_array [OF h, of 52 w0] by (auto simp: s0(2))
  obtain p c w2 where m0: "h_malloc h (of_nat ?pn) w1 = ((p, c), w2)" by (metis prod.exhaust)
  obtain w3 where s1: "h_lseek h fd (ucast (e_phoff ?eh)) 0 w2 = (ucast (e_phoff ?eh), w3)" "pos w3 = unat (e_phoff ?eh)"
    using serves_lseek [OF h] by fastforce
  define ph where "ph = take ?pn (drop (pos w3) file)"
  obtain w4 where r1: "h_read h fd (of_nat ?pn) w3 = ((of_nat (length ph), ph), w4)"
    "(ucast (of_nat (length ph) :: u64) :: u32) = of_nat ?pn \<longleftrightarrow> length ph = ?pn"
    using read_array [OF h small(1), of w3] by (auto simp: ph_def)
  have ps: "parse_array parse_phdr 32 (e_phnum ?eh) ph = program_headers file"
    by (simp add: ph_def program_headers_def parse_array_take s1(2))
  note eqs = s0(1) prod.case r0 file_ehdr_def [symmetric] m0 s1(1) r1 ps
  obtain u addr w5 where seg: "load_segments h fd (program_headers file) v (h_uninit h w4) w4 = Inr (True, u, addr, w5)"
    and l52: "length (take 52 file) = 52"
    using r unfolding load_elf_def Let_def eqs by (auto simp: res_bind_Inr_iff split: if_splits)
  define u1 where "u1 = u\<lparr>mem := (mem u)\<lparr>m_brk := ucast addr\<rparr>\<rparr>"
  obtain w6 where s2: "h_lseek h fd (ucast (e_shoff ?eh)) 0 w5 = (ucast (e_shoff ?eh), w6)" "pos w6 = unat (e_shoff ?eh)"
    using serves_lseek [OF h] by fastforce
  obtain q c' w7 where m1: "h_malloc h (of_nat ?sn) w6 = ((q, c'), w7)" by (metis prod.exhaust)
  have pos7: "pos w7 = unat (e_shoff ?eh)" using serves_malloc [OF h, of "of_nat ?sn" w6] m1 s2(2) by simp
  define sh where "sh = take ?sn (drop (pos w7) file)"
  obtain w8 where r2: "h_read h fd (of_nat ?sn) w7 = ((of_nat (length sh), sh), w8)"
    "(ucast (of_nat (length sh) :: u64) :: u32) = of_nat ?sn \<longleftrightarrow> length sh = ?sn"
    using read_array [OF h small(2), of w7] by (auto simp: sh_def)
  have ss: "parse_array parse_shdr 40 (e_shnum ?eh) sh = section_headers file"
    by (simp add: sh_def section_headers_def parse_array_take pos7)
  have "load_symbols h fd (section_headers file) u1 w8 = Inr (True, v', w') \<and> r = e_entry ?eh"
    using r unfolding load_elf_def Let_def eqs seg res_bind.simps s2(1) m1 r2 ss u1_def [symmetric]
    by (auto simp: res_bind_Inr_iff split: if_splits)
  then obtain e where e: "file_symbols file = Some e" "v' = u1\<lparr>elf := e\<rparr>" "r = e_entry ?eh"
    using load_symbols_served [OF h] by blast
  then have "v' = u\<lparr>mem := (mem u)\<lparr>m_brk := ucast addr\<rparr>, elf := e\<rparr>" by (simp add: u1_def)
  moreover have "52 \<le> length file" using l52 by simp
  ultimately show ?thesis using seg e(1,3) by blast
qed

section \<open>Files that load\<close>

text \<open>
  A file that can be loaded into guest memory of a given size: its headers are in it, its segments
  are in it and fit, with no more bytes in the file than in memory, and so are its symbol table and
  the strings of that.
\<close>

definition in_file :: "byte list \<Rightarrow> nat \<Rightarrow> nat \<Rightarrow> bool" where
  "in_file file off n \<longleftrightarrow> off + n \<le> length file"

definition valid_program :: "byte list \<Rightarrow> nat \<Rightarrow> bool" where
  "valid_program file sz \<longleftrightarrow>
     in_file file 0 52 \<and> e_entry (file_ehdr file) \<noteq> - 1 \<and>
     in_file file (unat (e_phoff (file_ehdr file))) (32 * e_phnum (file_ehdr file)) \<and>
     in_file file (unat (e_shoff (file_ehdr file))) (40 * e_shnum (file_ehdr file)) \<and>
     list_all (\<lambda>p. p_type p \<noteq> PT_LOAD \<or>
         unat (p_vaddr p) + unat (p_memsz p) < sz \<and> unat (p_filesz p) \<le> unat (p_memsz p) \<and>
         in_file file (unat (p_offset p)) (unat (p_filesz p))) (program_headers file) \<and>
     (case find (\<lambda>s. sh_type s = SHT_SYMTAB) (section_headers file) of
        None \<Rightarrow> False
      | Some s \<Rightarrow>
          sh_entsize s \<noteq> 0 \<and> sh_entsize s \<le> sh_size s \<and> in_file file (unat (sh_offset s)) (unat (sh_size s)) \<and>
          unat (sh_link s) < length (section_headers file) \<and>
          (let t = section_headers file ! unat (sh_link s)
           in in_file file (unat (sh_offset t)) (unat (sh_size t))))"

lemma load_segments_complete:
  assumes h: "serves h fd file pos"
    and "m_start (mem v) \<le> m_end (mem v)" "uint (m_start (mem v)) + 8589934592 \<le> 18446744073709551616"
    and "list_all (\<lambda>p. p_type p \<noteq> PT_LOAD \<or>
         unat (p_vaddr p) + unat (p_memsz p) < vm_size v \<and> unat (p_filesz p) \<le> unat (p_memsz p) \<and>
         in_file file (unat (p_offset p)) (unat (p_filesz p))) ps"
  shows "\<exists>u addr' w'. load_segments h fd ps v addr w = Inr (True, u, addr', w')"
  using assms(2-4)
proof (induction ps arbitrary: v addr w)
  case Nil
  then show ?case by simp
next
  case (Cons p ps)
  show ?case
  proof (cases "p_type p = PT_LOAD")
    case False
    then show ?thesis using Cons by simp
  next
    case True
    then have p: "unat (p_vaddr p) + unat (p_memsz p) < vm_size v" "unat (p_filesz p) \<le> unat (p_memsz p)"
      "in_file file (unat (p_offset p)) (unat (p_filesz p))" using Cons.prems(3) by simp_all
    then have l: "length (segment_bytes file p) = unat (p_filesz p)" by (simp add: segment_bytes_def in_file_def)
    have f: "\<not> m_end (mem v) \<le> m_start (mem v) + ucast (p_vaddr p) + ucast (p_memsz p)"
      using fits_check [OF Cons.prems(1,2)] p(1) by simp
    have "\<not> vm_size v < unat (p_vaddr p) + unat (p_filesz p)" using p(1,2) by linarith
    then obtain w' where w': "load_segments h fd (p # ps) v addr w =
        load_segments h fd ps (with_bytes v (unat (p_vaddr p)) (segment_bytes file p))
          ((p_vaddr p + p_memsz p + p_align p - 1) AND NOT (p_align p - 1)) w'"
      using load_segment_served [OF h True f, of ps addr w] by (auto simp: Let_def l)
    have "vm_size (with_bytes v a bs) = vm_size v" for a bs by (simp add: vm_size_def)
    then show ?thesis unfolding w' using Cons.prems by (intro Cons.IH) simp_all
  qed
qed

lemma find_symtab_complete:
  assumes "find (\<lambda>s. sh_type s = SHT_SYMTAB) ss = Some s" "sh_entsize s \<noteq> 0"
  shows "\<exists>j. find_symtab ss i = Inr (i + j, sh_link s, sh_size s div sh_entsize s) \<and> j < length ss \<and> ss ! j = s"
  using assms
proof (induction ss arbitrary: i)
  case Nil
  then show ?case by simp
next
  case (Cons t ss)
  show ?case
  proof (cases "sh_type t = SHT_SYMTAB")
    case True
    then show ?thesis using Cons.prems by (intro exI [of _ 0]) simp
  next
    case False
    then obtain j where "find_symtab ss (i + 1) = Inr (i + 1 + j, sh_link s, sh_size s div sh_entsize s)"
      "j < length ss" "ss ! j = s" using Cons.IH [of "i + 1"] Cons.prems by auto
    then show ?thesis using False by (intro exI [of _ "Suc j"]) simp
  qed
qed

lemma sint_ucast_u64: "sint (ucast (x :: u32) :: u64) = uint x"
proof -
  have "uint x < 4294967296" using uint_u32 [of x] by simp
  moreover have "- 9223372036854775808 \<le> uint x" by (rule order_trans [OF _ uint_ge_0]) simp
  ultimately have "signed_take_bit 63 (uint x) = uint x" by (simp add: signed_take_bit_int_eq_self_iff)
  then show ?thesis by (simp add: sint_uint uint_ucast_u64)
qed

lemma load_table_complete:
  assumes "serves h fd file pos" "\<And>n x. fst (fst (h_malloc h n x)) \<noteq> 0"
    and "in_file file (unat (sh_offset s)) (unat (sh_size s))"
  shows "\<exists>w'. load_table h fd s w = Inr (Some (section_bytes file s), w')"
proof -
  obtain p m x where p: "h_malloc h (ucast (sh_size s)) w = ((p, m), x)" by (metis prod.exhaust)
  then have "p \<noteq> 0" using assms(2) [of "ucast (sh_size s)" w] by simp
  moreover obtain y where y: "h_lseek h fd (ucast (sh_offset s)) 0 x = (ucast (sh_offset s), y)" "pos y = unat (sh_offset s)"
    using serves_lseek [OF assms(1)] by fastforce
  moreover obtain z where z: "h_read h fd (ucast (sh_size s)) y = ((of_nat (length (section_bytes file s)), section_bytes file s), z)"
    using serves_read [OF assms(1), of "ucast (sh_size s)" y] by (auto simp: section_bytes_def y(2))
  moreover have "length (section_bytes file s) = unat (sh_size s)"
    using assms(3) by (simp add: section_bytes_def in_file_def)
  moreover have "\<not> sint (ucast (sh_offset s) :: u64) < 0"
    using uint_ge_0 [of "sh_offset s"] unfolding sint_ucast_u64 by linarith
  ultimately show ?thesis by (simp add: load_table_def p)
qed

lemma load_symbols_complete:
  assumes "serves h fd file pos" "\<And>n x. fst (fst (h_malloc h n x)) \<noteq> 0" "valid_program file sz"
  shows "\<exists>v' w'. load_symbols h fd (section_headers file) v w = Inr (True, v', w')"
proof -
  let ?ss = "section_headers file"
  obtain s where s: "find (\<lambda>s. sh_type s = SHT_SYMTAB) ?ss = Some s" "sh_entsize s \<noteq> 0" "sh_entsize s \<le> sh_size s"
    "in_file file (unat (sh_offset s)) (unat (sh_size s))" "unat (sh_link s) < length ?ss"
    "in_file file (unat (sh_offset (?ss ! unat (sh_link s)))) (unat (sh_size (?ss ! unat (sh_link s))))"
    using assms(3) by (auto simp: valid_program_def Let_def split: option.splits)
  obtain i where i: "find_symtab ?ss 0 = Inr (i, sh_link s, sh_size s div sh_entsize s)" "i < length ?ss" "?ss ! i = s"
    using find_symtab_complete [OF s(1,2), of 0] by auto
  have "sh_size s div sh_entsize s \<noteq> 0"
  proof
    assume "sh_size s div sh_entsize s = 0"
    then have "unat (sh_size s) div unat (sh_entsize s) = 0" by (simp add: unat_div [symmetric])
    moreover have "0 < unat (sh_entsize s)" using s(2) by (simp add: unat_gt_0)
    ultimately have "unat (sh_size s) < unat (sh_entsize s)" by (simp add: div_eq_0_iff)
    then show False using s(3) by (simp add: word_le_nat_alt)
  qed
  moreover obtain x where "load_table h fd (?ss ! unat (sh_link s)) w = Inr (Some (section_bytes file (?ss ! unat (sh_link s))), x)"
    using load_table_complete [OF assms(1,2) s(6)] by blast
  moreover obtain y where "load_table h fd s x = Inr (Some (section_bytes file s), y)"
    using load_table_complete [OF assms(1,2) s(4)] by blast
  ultimately show ?thesis using i s(5) by (simp add: load_symbols_def)
qed

lemma load_elf_complete:
  assumes h: "serves h fd file pos" and m: "\<And>n x. fst (fst (h_malloc h n x)) \<noteq> 0"
    and v: "valid_program file (vm_size v)"
    and mem: "m_start (mem v) \<le> m_end (mem v)" "uint (m_start (mem v)) + 8589934592 \<le> 18446744073709551616"
  shows "\<exists>v' w'. load_elf h fd v w = Inr (e_entry (file_ehdr file), v', w')"
proof -
  let ?eh = "file_ehdr file"
  let ?pn = "32 * e_phnum ?eh" and ?sn = "40 * e_shnum ?eh"
  have small: "?pn < 4294967296" "?sn < 4294967296" using phnum_less [of "file"] by simp_all
  have inside: "length (take 52 file) = 52" "length (take ?pn (drop (unat (e_phoff ?eh)) file)) = ?pn"
    "length (take ?sn (drop (unat (e_shoff ?eh)) file)) = ?sn"
    using v by (auto simp: valid_program_def in_file_def)
  obtain w0 where s0: "h_lseek h fd 0 0 w = (0, w0)" "pos w0 = 0" using serves_lseek [OF h, of 0] by auto
  obtain w1 where r0: "h_read h fd 52 w0 = ((of_nat (length (take 52 file)), take 52 file), w1)"
    "(ucast (of_nat (length (take 52 file)) :: u64) :: u32) = 52"
    using read_array [OF h, of 52 w0] inside(1) by (auto simp: s0(2))
  obtain p c w2 where m0: "h_malloc h (of_nat ?pn) w1 = ((p, c), w2)" by (metis prod.exhaust)
  have p: "p \<noteq> 0" using m [of "of_nat ?pn" w1] m0 by simp
  obtain w3 where s1: "h_lseek h fd (ucast (e_phoff ?eh)) 0 w2 = (ucast (e_phoff ?eh), w3)" "pos w3 = unat (e_phoff ?eh)"
    using serves_lseek [OF h] by fastforce
  define ph where "ph = take ?pn (drop (pos w3) file)"
  obtain w4 where r1: "h_read h fd (of_nat ?pn) w3 = ((of_nat (length ph), ph), w4)"
    "(ucast (of_nat (length ph) :: u64) :: u32) = of_nat ?pn"
    using read_array [OF h small(1), of w3] inside(2) by (auto simp: ph_def s1(2))
  have ps: "parse_array parse_phdr 32 (e_phnum ?eh) ph = program_headers file"
    by (simp add: ph_def program_headers_def parse_array_take s1(2))
  obtain u addr w5 where seg: "load_segments h fd (program_headers file) v (h_uninit h w4) w4 = Inr (True, u, addr, w5)"
    using load_segments_complete [OF h mem] v unfolding valid_program_def by blast
  define u1 where "u1 = u\<lparr>mem := (mem u)\<lparr>m_brk := ucast addr\<rparr>\<rparr>"
  obtain w6 where s2: "h_lseek h fd (ucast (e_shoff ?eh)) 0 w5 = (ucast (e_shoff ?eh), w6)" "pos w6 = unat (e_shoff ?eh)"
    using serves_lseek [OF h] by fastforce
  obtain q c' w7 where m1: "h_malloc h (of_nat ?sn) w6 = ((q, c'), w7)" by (metis prod.exhaust)
  have q: "q \<noteq> 0" using m [of "of_nat ?sn" w6] m1 by simp
  have pos7: "pos w7 = unat (e_shoff ?eh)" using serves_malloc [OF h, of "of_nat ?sn" w6] m1 s2(2) by simp
  define sh where "sh = take ?sn (drop (pos w7) file)"
  obtain w8 where r2: "h_read h fd (of_nat ?sn) w7 = ((of_nat (length sh), sh), w8)"
    "(ucast (of_nat (length sh) :: u64) :: u32) = of_nat ?sn"
    using read_array [OF h small(2), of w7] inside(3) by (auto simp: sh_def pos7)
  have ss: "parse_array parse_shdr 40 (e_shnum ?eh) sh = section_headers file"
    by (simp add: sh_def section_headers_def parse_array_take pos7)
  obtain v' w' where sym: "load_symbols h fd (section_headers file) u1 w8 = Inr (True, v', w')"
    using load_symbols_complete [OF h m v] by blast
  have "load_elf h fd v w = Inr (e_entry ?eh, v', w')"
    unfolding load_elf_def Let_def s0(1) prod.case r0 file_ehdr_def [symmetric] m0 s1(1) r1 ps seg res_bind.simps
      s2(1) m1 r2 ss u1_def [symmetric] sym
    using p q by simp
  then show ?thesis by blast
qed

section \<open>A program file\<close>

text \<open>
  An ELF file with one segment, a symbol table with the symbol \<open>main\<close> and its string table, and the
  host that serves it; the state of the host is the position in the file.
\<close>

definition file_words :: "nat list \<Rightarrow> byte list" where
  "file_words ws = concat (map (le_bytes 4) ws)"

lemma length_file_words [simp]: "length (file_words ws) = 4 * length ws"
  by (simp add: file_words_def length_concat_map)

lemma drop_file_words: "i < length ws \<Longrightarrow> take 4 (drop (4 * i) (file_words ws)) = le_bytes 4 (ws ! i)"
  unfolding file_words_def by (rule take_drop_concat) simp

lemma field_file_words:
  assumes "i < length ws"
  shows "field (file_words ws) (4 * i) 4 = ws ! i mod 4294967296" "field (file_words ws) (4 * i) 2 = ws ! i mod 65536"
proof -
  show "field (file_words ws) (4 * i) 4 = ws ! i mod 4294967296"
    using drop_file_words [OF assms] by (simp add: field_def)
  have "take 2 (drop (4 * i) (file_words ws)) = take 2 (take 4 (drop (4 * i) (file_words ws)))" by simp
  also have "\<dots> = take 2 (le_bytes 4 (ws ! i))" by (simp only: drop_file_words [OF assms])
  also have "\<dots> = le_bytes 2 (ws ! i)" using le_bytes_add [of 2 2 "ws ! i"] by simp
  finally show "field (file_words ws) (4 * i) 2 = ws ! i mod 65536"  by (simp add: field_def)
qed

definition ehdr_words :: "nat list" where "ehdr_words = [0, 0, 0, 0, 0, 0, 0x40, 52, 84, 0, 0, 1, 2]"
definition phdr_words :: "nat list" where "phdr_words = [1, 0, 0x100, 0, 4, 0x10, 0, 0x1000]"
definition symtab_words :: "nat list" where "symtab_words = [0, 2, 0, 0, 164, 16, 1, 0, 0, 16]"
definition strtab_words :: "nat list" where "strtab_words = [0, 3, 0, 0, 180, 6, 0, 0, 0, 0]"
definition sym_words :: "nat list" where "sym_words = [1, 0x40, 0, 0]"

lemmas words_defs = ehdr_words_def phdr_words_def symtab_words_def strtab_words_def sym_words_def

definition elf_image :: "byte list" where
  "elf_image = file_words ehdr_words @ file_words phdr_words @ file_words symtab_words @ file_words strtab_words @
     file_words sym_words @ [0, 0x6D, 0x61, 0x69, 0x6E, 0]"

lemma image_parts:
  "take 52 elf_image = file_words ehdr_words"
  "take 32 (drop 52 elf_image) = file_words phdr_words"
  "take 80 (drop 84 elf_image) = file_words symtab_words @ file_words strtab_words"
  "take 16 (drop 164 elf_image) = file_words sym_words"
  "take 6 (drop 180 elf_image) = [0, 0x6D, 0x61, 0x69, 0x6E, 0]"
  "length (take 4 elf_image) = 4" "length elf_image = 186"
  by (simp_all add: elf_image_def words_defs)

lemma image_ehdr:
  "parse_ehdr (file_words ehdr_words) = \<lparr>e_entry = 0x40, e_phoff = 52, e_shoff = 84, e_phnum = 1, e_shnum = 2\<rparr>"
  using field_file_words [of 6 ehdr_words] field_file_words [of 7 ehdr_words] field_file_words [of 8 ehdr_words]
    field_file_words [of 11 ehdr_words] field_file_words [of 12 ehdr_words]
  by (simp add: parse_ehdr_def field32_def words_defs)

lemma image_phdr:
  "parse_phdr (file_words phdr_words) =
     \<lparr>p_type = 1, p_offset = 0, p_vaddr = 0x100, p_filesz = 4, p_memsz = 0x10, p_align = 0x1000\<rparr>"
  using field_file_words [of 0 phdr_words] field_file_words [of 1 phdr_words] field_file_words [of 2 phdr_words]
    field_file_words [of 4 phdr_words] field_file_words [of 5 phdr_words] field_file_words [of 7 phdr_words]
  by (simp add: parse_phdr_def field32_def words_defs)

lemma image_symtab:
  "parse_shdr (file_words symtab_words) = \<lparr>sh_type = 2, sh_offset = 164, sh_size = 16, sh_link = 1, sh_entsize = 16\<rparr>"
  "parse_shdr (file_words strtab_words) = \<lparr>sh_type = 3, sh_offset = 180, sh_size = 6, sh_link = 0, sh_entsize = 0\<rparr>"
  using field_file_words [of 1 symtab_words] field_file_words [of 4 symtab_words] field_file_words [of 5 symtab_words]
    field_file_words [of 6 symtab_words] field_file_words [of 9 symtab_words]
   field_file_words [of 1 strtab_words] field_file_words [of 4 strtab_words] field_file_words [of 5 strtab_words]
    field_file_words [of 6 strtab_words] field_file_words [of 9 strtab_words]
  by (simp_all add: parse_shdr_def field32_def words_defs)

lemma words_length [simp]:
  "length ehdr_words = 13" "length phdr_words = 8" "length symtab_words = 10" "length strtab_words = 10" "length sym_words = 4"
  by (simp_all add: words_defs)

definition elf_host :: "nat host" where
  "elf_host = \<lparr>h_print = (\<lambda>_ w. w), h_puts = (\<lambda>s w. (of_nat (length s), w)), h_open = (\<lambda>_ _ w. (3, 0)),
     h_read = (\<lambda>_ n w. let bs = take (unat n) (drop w elf_image) in ((of_nat (length bs), bs), w + length bs)),
     h_write = (\<lambda>_ bs w. (of_nat (length bs), w)), h_close = (\<lambda>_ w. (0, w)),
     h_lseek = (\<lambda>_ off _ w. (off, unat off)), h_time = (\<lambda>w. (0, w)),
     h_malloc = (\<lambda>_ w. ((0x7F0000000000, \<lambda>_. 0), w)), h_uninit = (\<lambda>_. 0)\<rparr>"

lemma elf_host_simps:
  "h_open elf_host p f w = (3, 0)" "h_lseek elf_host fd off k w = (off, unat off)"
  "h_malloc elf_host n w = ((0x7F0000000000, \<lambda>_. 0), w)" "h_uninit elf_host w = 0"
  "h_read elf_host fd n w = ((of_nat (length (take (unat n) (drop w elf_image))), take (unat n) (drop w elf_image)),
     w + length (take (unat n) (drop w elf_image)))"
  by (simp_all add: elf_host_def Let_def)

lemma shdrs: "parse_array parse_shdr 40 2 (file_words symtab_words @ file_words strtab_words) =
   [\<lparr>sh_type = 2, sh_offset = 164, sh_size = 16, sh_link = 1, sh_entsize = 16\<rparr>,
    \<lparr>sh_type = 3, sh_offset = 180, sh_size = 6, sh_link = 0, sh_entsize = 0\<rparr>]"
  by (simp add: parse_array_def upt_rec image_symtab)

lemma phdrs: "parse_array parse_phdr 32 (Suc 0) (file_words phdr_words) =
   [\<lparr>p_type = 1, p_offset = 0, p_vaddr = 0x100, p_filesz = 4, p_memsz = 0x10, p_align = 0x1000\<rparr>]"
  by (simp add: parse_array_def image_phdr)

lemma elf_host_serves: "serves elf_host fd elf_image id"
  by (simp add: serves_def elf_host_simps)

section \<open>Oversized segments\<close>

text \<open>
  C39: Oversized segments. Take a segment whose size in memory fits guest memory and whose bytes
  are all in the file. The loader stores them all, however many they are, and goes on with the
  next header; where the size in the file exceeds the size in memory so far that the last byte
  lies past the end of guest memory, it reads past the end of the block.
\<close>

theorem oversized_segment:
  assumes "serves h fd file pos" "p_type p = PT_LOAD" "m_start (mem v) \<le> m_end (mem v)"
    and "uint (m_start (mem v)) + 8589934592 \<le> 18446744073709551616"
    and "unat (p_vaddr p) + unat (p_memsz p) < vm_size v"
    and "unat (p_offset p) + unat (p_filesz p) \<le> length file"
  shows "\<exists>w'. load_segments h fd (p # ps) v addr w =
    (if vm_size v < unat (p_vaddr p) + unat (p_filesz p) then Inl (MemFault (uint (p_vaddr p)))
     else load_segments h fd ps
            (v\<lparr>mem := (mem v)\<lparr>m_data := store_bytes (m_data (mem v)) (unat (p_vaddr p))
                                       (take (unat (p_filesz p)) (drop (unat (p_offset p)) file))\<rparr>\<rparr>)
            ((p_vaddr p + p_memsz p + p_align p - 1) AND NOT (p_align p - 1)) w')"
proof -
  have l: "length (segment_bytes file p) = unat (p_filesz p)" using assms(6) by (simp add: segment_bytes_def)
  have f: "\<not> m_end (mem v) \<le> m_start (mem v) + ucast (p_vaddr p) + ucast (p_memsz p)"
    using fits_check [OF assms(3,4)] assms(5) by simp
  have "vm_size v < unat (p_vaddr p) + unat (p_filesz p) \<Longrightarrow> segment_bytes file p \<noteq> []"
    using l assms(5) by auto
  then show ?thesis
    using load_segment_served [OF assms(1,2) f, of ps addr w] unfolding Let_def l segment_bytes_def [symmetric]
    by (auto split: if_splits)
qed

definition big_file :: phdr where
  "big_file = \<lparr>p_type = PT_LOAD, p_offset = 0x40, p_vaddr = 0x3FFFFE, p_filesz = 4, p_memsz = 0, p_align = 1\<rparr>"

theorem oversized_segment_witness:
  "load_segments elf_host 3 [big_file] sim_vm 0 0 = Inl (MemFault 0x3FFFFE)"
proof -
  have m: "m_start (mem sim_vm) = 0x7F0000000000" "m_end (mem sim_vm) = 0x7F0000400000"
    by (simp_all add: sim_vm_def)
  show ?thesis
    using oversized_segment [OF elf_host_serves, of big_file sim_vm 3 "[]" 0 0]
    by (simp add: big_file_def vm_size_def m image_parts)
qed

end
