(* ===== verification/Vm_Create.thy ===== *)
theory Vm_Create
  imports Elf_File
begin

text \<open>
  The machine that \<open>vm_create\<close> returns, as a function of the program file, and what becomes of the
  stack sizes it accepts.
\<close>

section \<open>The steps of vm\_create\<close>

lemma vm_create_parts:
  assumes "vm_create h sizeof_vm bin memsize stacksize w = Inr (Some v, w')"
    and "h_open h bin O_RDWR_host w = (fd, w1)" "h_malloc h sizeof_vm w1 = (p, w2)"
    and "h_malloc h (ucast memsize) w2 = ((t, content), w3)"
    and "v1 = zero_vm\<lparr>mem := \<lparr>m_start = t, m_end = t + ucast memsize, m_brk = 0, m_data = content\<rparr>\<rparr>"
  shows "\<exists>r v2. load_elf h fd v1 w3 = Inr (r, v2, w') \<and> r \<noteq> - 1 \<and> t \<noteq> 0 \<and>
    v = v2\<lparr>entry := r, stack_size := stacksize\<rparr> \<and> \<not> stacksize * 2 < 256"
proof -
  have m: "(mem zero_vm)\<lparr>m_start := t, m_end := t + ucast memsize, m_data := content\<rparr> =
      \<lparr>m_start = t, m_end = t + ucast memsize, m_brk = 0, m_data = content\<rparr>"
    by (simp add: zero_vm_def)
  obtain p0 c0 where "p = (p0, c0)" by fastforce
  with assms(1) show ?thesis
    unfolding vm_create_def create_failed_def vm_init_def vm_load_def load_program_def STACK_SAFE_HOLE_def
      assms(2-4) prod.case m assms(5) [symmetric]
    by (auto simp: res_bind_Inr_iff split: if_splits)
qed

section \<open>A file that loads\<close>

lemma image_loads:
  assumes "m_start (mem v) = 0x7F0000000000" "m_end (mem v) = 0x7F0000010000"
  shows "\<exists>v' w'. load_elf elf_host 3 v 0 = Inr (0x40, v', w')"
proof -
  have "vm_size (v\<lparr>mem := x\<rparr>) = unat (m_end x - m_start x)" for x by (simp add: vm_size_def)
  moreover have "in_mem v 256 4" using assms by (simp add: in_mem_def vm_size_def)
  ultimately show ?thesis using assms
    by (simp add: load_elf_def Let_def elf_host_simps image_parts image_ehdr phdrs shdrs PT_LOAD_def
        SHT_SYMTAB_def load_symbols_def load_table_def)
qed

section \<open>Properties\<close>

lemma created_size:
  assumes "serves h (fst (h_open h bin O_RDWR_host w)) file pos" "vm_create h sizeof_vm bin memsize stacksize w = Inr (Some v, w')"
    and "h_malloc h (ucast memsize) (snd (h_malloc h sizeof_vm (snd (h_open h bin O_RDWR_host w)))) = ((t, content), w1)"
  shows "vm_size v = unat memsize"
proof -
  obtain fd w2 where o: "h_open h bin O_RDWR_host w = (fd, w2)" by fastforce
  have srv: "serves h fd file pos" using assms(1) by (simp add: o)
  obtain p w3 where p: "h_malloc h sizeof_vm w2 = (p, w3)" by fastforce
  have mm: "h_malloc h (ucast memsize) w3 = ((t, content), w1)" using assms(3) by (simp add: o p)
  obtain r v2 where l: "load_elf h fd (zero_vm\<lparr>mem := \<lparr>m_start = t, m_end = t + ucast memsize, m_brk = 0, m_data = content\<rparr>\<rparr>) w1 =
      Inr (r, v2, w')" "r \<noteq> - 1" and v: "v = v2\<lparr>entry := r, stack_size := stacksize\<rparr>"
    using vm_create_parts [OF assms(2) o p mm refl] by blast
  from load_elf_served [OF srv l] obtain a x u addr y e where
    s: "load_segments h fd (program_headers file)
        (zero_vm\<lparr>mem := \<lparr>m_start = t, m_end = t + ucast memsize, m_brk = 0, m_data = content\<rparr>\<rparr>) a x = Inr (True, u, addr, y)"
    and v2: "v2 = u\<lparr>mem := (mem u)\<lparr>m_brk := ucast addr\<rparr>, elf := e\<rparr>" by blast
  show ?thesis using load_segments_served [OF srv s] by (simp add: v v2 vm_size_def)
qed

text \<open>
  C7: Creation. A machine that \<open>vm_create\<close> returns is determined by the file: the symbol table is
  the file's, the entry is that of its header, guest memory is the block \<open>malloc\<close> returned, of the
  size asked for, with the file's segments stored into it, the break is the aligned end of the last
  segment (or what the variable held, in a file without one), and registers, parameters and threads
  are zero. Every segment lies inside guest memory and is in the file as a whole.
\<close>

theorem vm_create_machine:
  assumes host: "serves h (fst (h_open h bin O_RDWR_host w)) file pos"
    "\<And>n x. uint (fst (fst (h_malloc h n x))) + 8589934592 \<le> 18446744073709551616"
    and r: "vm_create h sizeof_vm bin memsize stacksize w = Inr (Some v, w')"
    and m: "h_malloc h (ucast memsize) (snd (h_malloc h sizeof_vm (snd (h_open h bin O_RDWR_host w)))) = ((t, content), w1)"
  shows "\<exists>e a. file_symbols file = Some e \<and>
    v = \<lparr>elf = e, cpu = \<lparr>gpr = (\<lambda>_. 0), cpr = (\<lambda>_. 0)\<rparr>,
         mem = \<lparr>m_start = t, m_end = t + ucast memsize, m_brk = ucast (segments_end (program_headers file) a),
                m_data = load_file file (program_headers file) content\<rparr>,
         entry = e_entry (file_ehdr file), stack_size = stacksize, param_count = 0,
         threads = (\<lambda>_. zero_thread)\<rparr> \<and>
    vm_size v = unat memsize \<and> t \<noteq> 0 \<and> 256 \<le> stacksize * 2 \<and> 52 \<le> length file \<and>
    (\<forall>p \<in> set (program_headers file). segment_fits v p \<and>
       (p_type p \<noteq> PT_LOAD \<or> length (segment_bytes file p) = unat (p_filesz p)))"
proof -
  obtain fd w2 where o: "h_open h bin O_RDWR_host w = (fd, w2)" by fastforce
  have srv: "serves h fd file pos" using host(1) by (simp add: o)
  obtain p w3 where p: "h_malloc h sizeof_vm w2 = (p, w3)" by fastforce
  have mm: "h_malloc h (ucast memsize) w3 = ((t, content), w1)" using m by (simp add: o p)
  define v1 where "v1 = zero_vm\<lparr>mem := \<lparr>m_start = t, m_end = t + ucast memsize, m_brk = 0, m_data = content\<rparr>\<rparr>"
  obtain r v2 where l: "load_elf h fd v1 w1 = Inr (r, v2, w')" "r \<noteq> - 1" "t \<noteq> 0"
    and v: "v = v2\<lparr>entry := r, stack_size := stacksize\<rparr>" and s: "\<not> stacksize * 2 < 256"
    using vm_create_parts [OF r o p mm v1_def] by blast
  obtain a x u addr y e where seg: "load_segments h fd (program_headers file) v1 a x = Inr (True, u, addr, y)"
    and e: "file_symbols file = Some e" and v2: "v2 = u\<lparr>mem := (mem u)\<lparr>m_brk := ucast addr\<rparr>, elf := e\<rparr>"
    and f: "52 \<le> length file" "r = e_entry (file_ehdr file)"
    using load_elf_served [OF srv l(1,2)] by blast
  have t: "uint t + 8589934592 \<le> 18446744073709551616" using host(2) [of "ucast memsize" w3] mm by simp
  have start: "m_start (mem v1) = t" "m_end (mem v1) = t + ucast memsize" by (simp_all add: v1_def)
  have "uint (t + ucast memsize) = uint t + uint memsize"
    using t uint_u32 [of memsize] by (subst uint_add_u64) (simp_all add: uint_ucast_u64)
  then have ord: "m_start (mem v1) \<le> m_end (mem v1)" using start by (simp add: word_le_def)
  have fit: "\<forall>p \<in> set (program_headers file). segment_fits v1 p" "addr = segments_end (program_headers file) a"
    using load_segments_ok [OF ord _ seg] t start by auto
  have u: "u = v1\<lparr>mem := (mem v1)\<lparr>m_data := load_file file (program_headers file) (m_data (mem v1))\<rparr>\<rparr>"
    and all: "\<forall>p \<in> set (program_headers file). p_type p = PT_LOAD \<longrightarrow> length (segment_bytes file p) = unat (p_filesz p)"
    using load_segments_served [OF srv seg] by blast+
  have veq: "v = \<lparr>elf = e, cpu = \<lparr>gpr = (\<lambda>_. 0), cpr = (\<lambda>_. 0)\<rparr>,
         mem = \<lparr>m_start = t, m_end = t + ucast memsize, m_brk = ucast (segments_end (program_headers file) a),
                m_data = load_file file (program_headers file) content\<rparr>,
         entry = e_entry (file_ehdr file), stack_size = stacksize, param_count = 0,
         threads = (\<lambda>_. zero_thread)\<rparr>"
    by (simp add: v v2 u v1_def zero_vm_def f(2) fit(2))
  then have sz: "vm_size v = unat memsize" by (simp add: vm_size_def)
  moreover have "vm_size v1 = unat memsize" by (simp add: vm_size_def start)
  ultimately have "segment_fits v p \<longleftrightarrow> segment_fits v1 p" for p by (simp add: segment_fits_def)
  with fit(1) all have "\<forall>p \<in> set (program_headers file). segment_fits v p \<and>
       (p_type p \<noteq> PT_LOAD \<or> length (segment_bytes file p) = unat (p_filesz p))" by blast
  moreover have "256 \<le> stacksize * 2" using s by (simp add: not_less)
  ultimately show ?thesis using veq sz e l(3) f(1) by blast
qed

lemma image_tables:
  "program_headers elf_image =
     [\<lparr>p_type = PT_LOAD, p_offset = 0, p_vaddr = 0x100, p_filesz = 4, p_memsz = 0x10, p_align = 0x1000\<rparr>]"
  "e_entry (file_ehdr elf_image) = 0x40"
proof -
  have h: "file_ehdr elf_image = \<lparr>e_entry = 0x40, e_phoff = 52, e_shoff = 84, e_phnum = 1, e_shnum = 2\<rparr>"
    by (simp add: file_ehdr_def image_parts image_ehdr)
  have "program_headers elf_image = parse_array parse_phdr 32 1 (take 32 (drop 52 elf_image))"
    by (simp add: program_headers_def h parse_array_take)
  then show "program_headers elf_image =
     [\<lparr>p_type = PT_LOAD, p_offset = 0, p_vaddr = 0x100, p_filesz = 4, p_memsz = 0x10, p_align = 0x1000\<rparr>]"
    by (simp add: image_parts phdrs PT_LOAD_def)
  show "e_entry (file_ehdr elf_image) = 0x40" by (simp add: h)
qed

lemma image_creates: "\<exists>v w'. vm_create elf_host 0x400 [] 0x10000 0x400 0 = Inr (Some v, w')"
proof -
  let ?v = "zero_vm\<lparr>mem := (mem zero_vm)\<lparr>m_start := 0x7F0000000000, m_end := 0x7F0000010000, m_data := (\<lambda>_. 0)\<rparr>\<rparr>"
  obtain v' w' where l: "load_elf elf_host 3 ?v 0 = Inr (0x40, v', w')" using image_loads [of ?v] by auto
  have "vm_create elf_host 0x400 [] 0x10000 0x400 0 = Inr (Some (v'\<lparr>entry := 0x40, stack_size := 0x400\<rparr>), w')"
    using l by (simp add: vm_create_def vm_init_def vm_load_def load_program_def elf_host_simps STACK_SAFE_HOLE_def)
  then show ?thesis by blast
qed

lemma elf_host_malloc: "uint (fst (fst (h_malloc elf_host n x))) + 8589934592 \<le> 18446744073709551616"
  by (simp add: elf_host_simps)

theorem vm_create_machine_witness:
  "\<exists>v w'. vm_create elf_host 0x400 [] 0x10000 0x400 0 = Inr (Some v, w') \<and> vm_size v = 0x10000 \<and>
     entry v = 0x40 \<and> m_brk (mem v) = 0x1000 \<and>
     m_data (mem v) = store_bytes (\<lambda>_. 0) 0x100 (take 4 elf_image)"
proof -
  obtain v w' where r: "vm_create elf_host 0x400 [] 0x10000 0x400 0 = Inr (Some v, w')" using image_creates by blast
  from vm_create_machine [OF elf_host_serves elf_host_malloc r, of "0x7F0000000000" "\<lambda>_. 0" 0]
  have "vm_size v = 0x10000 \<and> entry v = 0x40 \<and> m_brk (mem v) = 0x1000 \<and>
     m_data (mem v) = store_bytes (\<lambda>_. 0) 0x100 (take 4 elf_image)"
    by (auto simp: elf_host_simps image_tables load_file_def segments_end_def segment_bytes_def)
  with r show ?thesis by blast
qed




section \<open>Small stacks\<close>

text \<open>Of the stack size, \<open>vm_create\<close> uses only the outcome of its check, and it records it.\<close>

lemma vm_create_stack_size:
  assumes "vm_create h sizeof_vm bin memsize s w = Inr (Some v, w')" "\<not> s' * 2 < 256"
  shows "vm_create h sizeof_vm bin memsize s' w = Inr (Some (v\<lparr>stack_size := s'\<rparr>), w')"
  using assms unfolding vm_create_def create_failed_def STACK_SAFE_HOLE_def
  by (auto simp: res_bind_Inr_iff split: prod.splits if_splits)

text \<open>
  C38: Small stacks. Where \<open>vm_create\<close> makes a machine with a stack of 1024 bytes, it makes the same
  machine with a stack of 128 to 256 bytes; but the main thread of that machine starts with its stack
  pointer at or below its limit: the first turn of the loop reports a stack overflow, returns -3.
\<close>

theorem small_stack_overflows:
  assumes "vm_create h sizeof_vm bin memsize 1024 w = Inr (Some v, w')"
    and "128 \<le> unat s" "unat s \<le> 256" "256 \<le> vm_size v" "vm_size v < 2147483648"
    and "func \<noteq> 0" "unat func + 4 \<le> vm_size v"
  shows "vm_create h sizeof_vm bin memsize s w = Inr (Some (v\<lparr>stack_size := s\<rparr>), w') \<and>
    (case vm_create_main_thread h (v\<lparr>stack_size := s\<rparr>) func w' of
       Inl e \<Rightarrow> False
     | Inr (r, v', w'') \<Rightarrow> r = 0 \<and> result_of (run_loop h 0 v' w'') = Some (- 3))"
proof -
  let ?v = "v\<lparr>stack_size := s\<rparr>"
  have "\<not> s * 2 < 256" using assms(2,3) by (simp add: word_less_nat_alt unat_word_ariths)
  then have "vm_create h sizeof_vm bin memsize s w = Inr (Some ?v, w')"
    using vm_create_stack_size [OF assms(1)] by blast
  moreover have "vm_size ?v = vm_size v" by (simp add: vm_size_def)
  then obtain v' where "vm_thread_init ?v 0 func = Inr (0, v')" "result_of (run_loop h 0 v' w') = Some (- 3)"
    using small_stack_thread [of ?v func h w'] assms by auto
  then have "vm_create_main_thread h ?v func w' = Inr (0, v', w')" "result_of (run_loop h 0 v' w') = Some (- 3)"
    using assms(6) by (simp_all add: vm_create_main_thread_def)
  ultimately show ?thesis by simp
qed

theorem small_stack_overflows_witness:
  "\<exists>v w'. vm_create elf_host 0x400 [] 0x10000 128 0 = Inr (Some v, w') \<and>
     (case vm_create_main_thread elf_host v 0x100 w' of
        Inl e \<Rightarrow> False
      | Inr (r, v', w'') \<Rightarrow> result_of (run_loop elf_host 0 v' w'') = Some (- 3))"
proof -
  obtain v w' where r: "vm_create elf_host 0x400 [] 0x10000 0x400 0 = Inr (Some v, w')" using image_creates by blast
  have "vm_size v = 0x10000" using created_size [OF elf_host_serves r, of "0x7F0000000000" "\<lambda>_. 0" 0]
    by (simp add: elf_host_simps)
  with small_stack_overflows [OF r, of 128 "0x100"] show ?thesis by (auto split: sum.splits)
qed


end
