(* ===== verification/Pool.thy ===== *)
theory Pool
  imports Prelude
begin

text \<open>
  The memory pool, \<open>simulator/api/mem.c\<close> and its copy in the guest library,
  \<open>rtlib/libs/mem.c\<close>: free lists of blocks of nine sizes, linked through the first word of each
  free block and sorted by address. The two copies differ in the width of a pointer, which is the
  parameter \<open>abi\<close>; a size is a number below the modulus of that width.

  The bucket array lies in front of the blocks and is never reached through a block; it is a
  component of its own (\<open>Rt_Mem\<close> keeps that of the guest in guest memory). A pointer to a pointer (\<open>prev\<close>) is a \<open>slot\<close>: the head of the list or the
  link of a block. Loops over free lists are \<open>partial_function\<close>s: a cyclic list has no result.
\<close>

section \<open>State\<close>

record abi =
  ptr_size :: nat
  bucket_size :: nat

definition host_abi :: abi where "host_abi = \<lparr>ptr_size = 8, bucket_size = 16\<rparr>"
definition guest_abi :: abi where "guest_abi = \<lparr>ptr_size = 4, bucket_size = 12\<rparr>"

definition PAGE_SIZE :: nat where "PAGE_SIZE = 4096"
definition BUDY_COUNT :: nat where "BUDY_COUNT = 9"
definition MEM_ALIGN :: nat where "MEM_ALIGN = 8"
definition SHRINK_THD :: u32 where "SHRINK_THD = 16"
definition OBJ_MIN :: nat where "OBJ_MIN = 16"
definition OBJ_MAGIC :: nat where "OBJ_MAGIC = 0xA1B2C3D4"
definition HEADER_SIZE :: nat where "HEADER_SIZE = 8"

record bucket =
  obj_size :: u32
  free_n :: u32
  free_list :: nat

record pool =
  bds :: "bucket list"
  blocks :: mem

datatype slot = Head | Cell nat

definition modulus :: "abi \<Rightarrow> nat" where
  "modulus A = 256 ^ ptr_size A"

definition load_ptr :: "abi \<Rightarrow> mem \<Rightarrow> nat \<Rightarrow> nat" where
  "load_ptr A m a = load_le m a (ptr_size A)"

definition store_ptr :: "abi \<Rightarrow> mem \<Rightarrow> nat \<Rightarrow> nat \<Rightarrow> mem" where
  "store_ptr A m a v = store_le m a (ptr_size A) v"

text \<open>\<open>OBJ_MIN << idx\<close>\<close>

definition obj_bytes :: "nat \<Rightarrow> nat" where
  "obj_bytes idx = OBJ_MIN * 2 ^ idx"

definition upd_bucket :: "nat \<Rightarrow> (bucket \<Rightarrow> bucket) \<Rightarrow> pool \<Rightarrow> pool" where
  "upd_bucket idx f P = P\<lparr>bds := (bds P)[idx := f (bds P ! idx)]\<rparr>"

definition upd_blocks :: "(mem \<Rightarrow> mem) \<Rightarrow> pool \<Rightarrow> pool" where
  "upd_blocks f P = P\<lparr>blocks := f (blocks P)\<rparr>"

text \<open>\<open>*prev = v\<close>\<close>

definition store_slot :: "abi \<Rightarrow> nat \<Rightarrow> slot \<Rightarrow> nat \<Rightarrow> pool \<Rightarrow> pool" where
  "store_slot A idx s v P =
     (case s of
        Head \<Rightarrow> upd_bucket idx (\<lambda>b. b\<lparr>free_list := v\<rparr>) P
      | Cell a \<Rightarrow> upd_blocks (\<lambda>m. store_ptr A m a v) P)"

section \<open>pool_alloc_continues\<close>

text \<open>The \<open>while (start && left > 0)\<close> loop: the final \<open>(start, prev, block, left)\<close>.\<close>

partial_function (option) alloc_scan ::
  "abi \<Rightarrow> mem \<Rightarrow> nat \<Rightarrow> nat \<Rightarrow> nat \<Rightarrow> slot \<Rightarrow> nat \<Rightarrow> nat \<Rightarrow> (nat \<times> slot \<times> nat \<times> nat) option" where
  "alloc_scan A m sz n start prev block left =
     (if start \<noteq> 0 \<and> 0 < left then
        (if (start + sz) mod modulus A = load_ptr A m start
         then alloc_scan A m sz n (load_ptr A m start) prev block (left - 1)
         else alloc_scan A m sz n (load_ptr A m start) (Cell start) (load_ptr A m start) n)
      else Some (start, prev, block, left))"

definition pool_alloc_continues :: "abi \<Rightarrow> nat \<Rightarrow> nat \<Rightarrow> pool \<Rightarrow> (nat \<times> pool) option" where
  "pool_alloc_continues A idx n P =
     (let b = bds P ! idx in
      case alloc_scan A (blocks P) (unat (obj_size b)) n (free_list b) Head (free_list b) n of
        None \<Rightarrow> None
      | Some (start, prev, block, left) \<Rightarrow>
          if 0 < left then Some (0, P)
          else Some (block, upd_bucket idx (\<lambda>b. b\<lparr>free_n := free_n b - of_nat n\<rparr>)
                              (store_slot A idx prev start P)))"

section \<open>pool_add_free\<close>

text \<open>\<open>block + k * (OBJ_MIN << idx)\<close>; \<open>k\<close> is -1 for a run of no blocks.\<close>

definition elem_addr :: "abi \<Rightarrow> nat \<Rightarrow> nat \<Rightarrow> int \<Rightarrow> nat" where
  "elem_addr A idx block k = nat ((int block + k * int (obj_bytes idx)) mod int (modulus A))"

function link_run :: "abi \<Rightarrow> nat \<Rightarrow> nat \<Rightarrow> int \<Rightarrow> int \<Rightarrow> mem \<Rightarrow> mem" where
  "link_run A idx block n i m =
     (if i < n - 1
      then link_run A idx block n (i + 1)
             (store_ptr A m (elem_addr A idx block i) (elem_addr A idx block (i + 1)))
      else m)"
  by pat_completeness auto
termination
  by (relation "measure (\<lambda>(A, idx, block, n, i, m). nat (n - i))") auto

declare link_run.simps [simp del]

text \<open>The \<open>while (start && block > start)\<close> loop: the final \<open>(start, prev)\<close>.\<close>

partial_function (option) find_place ::
  "abi \<Rightarrow> mem \<Rightarrow> nat \<Rightarrow> nat \<Rightarrow> slot \<Rightarrow> (nat \<times> slot) option" where
  "find_place A m block start prev =
     (if start \<noteq> 0 \<and> start < block
      then find_place A m block (load_ptr A m start) (Cell start)
      else Some (start, prev))"

definition pool_add_free :: "abi \<Rightarrow> nat \<Rightarrow> nat \<Rightarrow> int \<Rightarrow> pool \<Rightarrow> pool option" where
  "pool_add_free A idx block n P =
     (if BUDY_COUNT \<le> idx then Some P
      else
        (let start = free_list (bds P ! idx);
             P = upd_blocks (link_run A idx block n 0) P;
             last = elem_addr A idx block (n - 1);
             count = upd_bucket idx (\<lambda>b. b\<lparr>free_n := free_n b + of_int n\<rparr>)
         in
           if start = 0 then
             Some (count (store_slot A idx Head block (upd_blocks (\<lambda>m. store_ptr A m last 0) P)))
           else if block < start then
             Some (count (store_slot A idx Head block
                     (upd_blocks (\<lambda>m. store_ptr A m last (free_list (bds P ! idx))) P)))
           else
             (case find_place A (blocks P) block start Head of
                None \<Rightarrow> None
              | Some (start, prev) \<Rightarrow>
                  Some (count (upd_blocks (\<lambda>m. store_ptr A m last start)
                                 (store_slot A idx prev block P))))))"

section \<open>pool_pull_upper and pool_try_shrink\<close>

function pool_pull_upper :: "abi \<Rightarrow> nat \<Rightarrow> pool \<Rightarrow> pool option" where
  "pool_pull_upper A idx P =
     (let upper = idx + 1 in
      if BUDY_COUNT \<le> upper then Some P
      else
        (case (if free_n (bds P ! upper) = 0 then pool_pull_upper A upper P else Some P) of
           None \<Rightarrow> None
         | Some P \<Rightarrow>
             if free_n (bds P ! upper) = 0 then Some P
             else
               (let block = free_list (bds P ! upper);
                    P = upd_bucket upper (\<lambda>b. b\<lparr>free_list := load_ptr A (blocks P) block\<rparr>) P;
                    P = upd_bucket upper (\<lambda>b. b\<lparr>free_n := free_n b - 1\<rparr>) P;
                    P = upd_blocks (\<lambda>m. store_ptr A m block (block + obj_bytes idx)) P;
                    P = upd_blocks (\<lambda>m. store_ptr A m (block + obj_bytes idx) 0) P
                in pool_add_free A idx block 2 P)))"
  by pat_completeness auto
termination
  by (relation "measure (\<lambda>(A, idx, P). BUDY_COUNT - idx)") (auto simp: BUDY_COUNT_def)

declare pool_pull_upper.simps [simp del]

text \<open>The \<open>while (curr)\<close> loop.\<close>

partial_function (option) shrink_loop ::
  "abi \<Rightarrow> nat \<Rightarrow> nat \<Rightarrow> slot \<Rightarrow> pool \<Rightarrow> pool option" where
  "shrink_loop A idx cur prev P =
     (if cur = 0 then Some P
      else
        (let next = load_ptr A (blocks P) cur in
         if next = (cur + obj_bytes idx) mod modulus A \<and> cur AND (obj_bytes idx - 1) = 0 then
           (let after = load_ptr A (blocks P) next;
                P = store_slot A idx prev after P;
                P = upd_bucket idx (\<lambda>b. b\<lparr>free_n := free_n b - 2\<rparr>) P
            in case pool_add_free A (idx + 1) cur 1 P of
                 None \<Rightarrow> None
               | Some P \<Rightarrow> shrink_loop A idx after prev P)
         else shrink_loop A idx next (Cell cur) P))"

function pool_try_shrink :: "abi \<Rightarrow> nat \<Rightarrow> pool \<Rightarrow> pool option" where
  "pool_try_shrink A idx P =
     (if BUDY_COUNT - 1 \<le> idx then Some P
      else
        (case shrink_loop A idx (free_list (bds P ! idx)) Head P of
           None \<Rightarrow> None
         | Some P \<Rightarrow> pool_try_shrink A (idx + 1) P))"
  by pat_completeness auto
termination
  by (relation "measure (\<lambda>(A, idx, P). BUDY_COUNT - idx)") (auto simp: BUDY_COUNT_def)

declare pool_try_shrink.simps [simp del]

section \<open>pool_create\<close>

text \<open>The loop over the pages: the last \<open>cur\<close> (0 while it is not set), \<open>n\<close> and the memory.\<close>

function create_pages :: "abi \<Rightarrow> nat \<Rightarrow> nat \<Rightarrow> nat \<Rightarrow> nat \<Rightarrow> mem \<Rightarrow> nat \<times> nat \<times> mem" where
  "create_pages A limit p cur n m =
     (if p + PAGE_SIZE < limit
      then create_pages A limit (p + PAGE_SIZE) p (n + 1) (store_ptr A m p (p + PAGE_SIZE))
      else (cur, n, m))"
  by pat_completeness auto
termination
  by (relation "measure (\<lambda>(A, limit, p, cur, n, m). limit - p)") (auto simp: PAGE_SIZE_def)

declare create_pages.simps [simp del]

definition page_round :: "abi \<Rightarrow> nat \<Rightarrow> nat" where
  "page_round A a = (a + PAGE_SIZE - 1) mod modulus A div PAGE_SIZE * PAGE_SIZE"

text \<open>\<open>None\<close> is the null pointer; the pool is found at \<open>addr\<close> otherwise.\<close>

definition pool_create :: "abi \<Rightarrow> nat \<Rightarrow> int \<Rightarrow> mem \<Rightarrow> pool option res" where
  "pool_create A addr sz m =
     (if sz \<le> int PAGE_SIZE then Inr None
      else
        (let start = page_round A (addr + bucket_size A * BUDY_COUNT) in
         case create_pages A (nat (int addr + sz)) start 0 0 m of
           (cur, n, m) \<Rightarrow>
             if n = 0 then Inl UninitFault
             else
               (let m = store_ptr A m cur 0;
                    bs = map (\<lambda>i. \<lparr>obj_size = of_nat (obj_bytes i), free_n = 0, free_list = 0\<rparr>) [0..<BUDY_COUNT];
                    bs = bs[BUDY_COUNT - 1 := (bs ! (BUDY_COUNT - 1))\<lparr>free_n := of_nat n, free_list := start\<rparr>]
                in Inr (Some \<lparr>bds = bs, blocks = m\<rparr>))))"

section \<open>pool_malloc and pool_free\<close>

definition write_header :: "nat \<Rightarrow> nat \<Rightarrow> nat \<Rightarrow> mem \<Rightarrow> mem" where
  "write_header bh idx count m =
     store_le (store_le (store_le m bh 2 idx) (bh + 2) 2 count) (bh + 4) 4 OBJ_MAGIC"

text \<open>\<open>while (tmp >>= 1) idx++\<close>\<close>

fun log_loop :: "nat \<Rightarrow> nat \<Rightarrow> nat" where
  "log_loop tmp idx = (if tmp div 2 = 0 then idx else log_loop (tmp div 2) (idx + 1))"

declare log_loop.simps [simp del]

text \<open>The index of the bucket for a small block; it can be negative.\<close>

definition small_index :: "nat \<Rightarrow> int" where
  "small_index size_n =
     (let idx = log_loop size_n 0;
          tmp = (2 ^ idx - 1 + size_n) div 2 ^ idx * 2 ^ idx
      in (if tmp = size_n then int idx - 1 else int idx) - 3)"

definition pool_malloc :: "abi \<Rightarrow> nat \<Rightarrow> pool \<Rightarrow> (nat \<times> pool) res option" where
  "pool_malloc A size_n P =
     (if size_n = 0 then Some (Inr (0, P))
      else
        (let size_n = (size_n + HEADER_SIZE) mod modulus A;
             size_n = (size_n + MEM_ALIGN - 1) mod modulus A div MEM_ALIGN * MEM_ALIGN;
             top = BUDY_COUNT - 1;
             page = unat (obj_size (bds P ! top))
         in
          if page < size_n then
            (let size_n = ((size_n + page - 1) mod modulus A) AND (unat (NOT (obj_size (bds P ! top) - 1)));
                 count = size_n div page
             in case pool_alloc_continues A top count P of
                  None \<Rightarrow> None
                | Some (bh, P) \<Rightarrow>
                    if bh = 0 then Some (Inr (0, P))
                    else Some (Inr (bh + HEADER_SIZE, upd_blocks (write_header bh top count) P)))
          else
            (let idx = small_index size_n in
             if idx < 0 then Some (Inl (IndexFault idx))
             else
               (let idx = nat idx in
                case (if free_n (bds P ! idx) = 0 then pool_pull_upper A idx P else Some P) of
                  None \<Rightarrow> None
                | Some P \<Rightarrow>
                    if free_n (bds P ! idx) = 0 then Some (Inr (0, P))
                    else
                      (let bh = free_list (bds P ! idx);
                           P = upd_bucket idx (\<lambda>b. b\<lparr>free_list := load_ptr A (blocks P) bh\<rparr>) P;
                           P = upd_bucket idx (\<lambda>b. b\<lparr>free_n := free_n b - 1\<rparr>) P
                       in Some (Inr (bh + HEADER_SIZE, upd_blocks (write_header bh idx 1) P)))))))"

text \<open>The message printed, and the pool. The header of a null pointer is below address 0.\<close>

definition pool_free :: "abi \<Rightarrow> nat \<Rightarrow> pool \<Rightarrow> (string \<times> pool) res option" where
  "pool_free A addr P =
     (if addr < HEADER_SIZE then Some (Inl NullFault)
      else
        (let bh = addr - HEADER_SIZE; m = blocks P in
         if load_le m (bh + 4) 4 \<noteq> OBJ_MAGIC then Some (Inr (''something wrong ...'', P))
         else if BUDY_COUNT \<le> load_le m bh 2 then Some (Inr (''invalid idx ...'', P))
         else
           (let idx = load_le m bh 2 in
            case pool_add_free A idx bh (int (load_le m (bh + 2) 2)) P of
              None \<Rightarrow> None
            | Some P \<Rightarrow>
                if SHRINK_THD < free_n (bds P ! idx)
                then map_option (\<lambda>P. Inr ([], P)) (pool_try_shrink A idx P)
                else Some (Inr ([], P)))))"

declare alloc_scan.simps [code] find_place.simps [code] shrink_loop.simps [code]

end
