(* ===== verification/Free_List.thy ===== *)
theory Free_List
  imports Pool
begin

text \<open>
  Lists linked through memory: the interface of a store of links, the lists it holds, and the
  effect of a store on them. The pool's pointers in byte memory are an instance for every width.
\<close>

section \<open>List segments\<close>

text \<open>From \<open>a\<close> the links run through \<open>xs\<close> and arrive at \<open>b\<close>; no element is the null pointer.\<close>

primrec seg :: "(nat \<Rightarrow> nat) \<Rightarrow> nat \<Rightarrow> nat list \<Rightarrow> nat \<Rightarrow> bool" where
  "seg f a [] b \<longleftrightarrow> a = b"
| "seg f a (x # xs) b \<longleftrightarrow> a = x \<and> x \<noteq> 0 \<and> seg f (f x) xs b"

lemma seg_append: "seg f a (xs @ ys) c \<longleftrightarrow> (\<exists>b. seg f a xs b \<and> seg f b ys c)"
  by (induction xs arbitrary: a) auto

lemma seg_cong: "(\<And>x. x \<in> set xs \<Longrightarrow> f x = g x) \<Longrightarrow> seg f a xs b \<longleftrightarrow> seg g a xs b"
  by (induction xs arbitrary: a) auto

lemma seg_start: "seg f a xs 0 \<Longrightarrow> a = (case xs of [] \<Rightarrow> 0 | x # _ \<Rightarrow> x)"
  by (cases xs) auto

lemma seg_nonzero: "seg f a xs b \<Longrightarrow> x \<in> set xs \<Longrightarrow> x \<noteq> 0"
  by (induction xs arbitrary: a) auto

lemma seg_unique: "seg f a xs 0 \<Longrightarrow> seg f a ys 0 \<Longrightarrow> xs = ys"
proof (induction xs arbitrary: a ys)
  case Nil
  then show ?case by (cases ys) auto
next
  case (Cons x xs)
  then show ?case by (cases ys) auto
qed

section \<open>A store of links\<close>

locale link_store =
  fixes ld :: "'m \<Rightarrow> nat \<Rightarrow> nat" and st :: "'m \<Rightarrow> nat \<Rightarrow> nat \<Rightarrow> 'm" and w lim :: nat
  assumes ld_st_same: "v < lim \<Longrightarrow> ld (st m a v) a = v"
    and ld_st_apart: "a + w \<le> b \<or> b + w \<le> a \<Longrightarrow> ld (st m b v) a = ld m a"
begin

lemma seg_store_away:
  assumes "\<And>x. x \<in> set xs \<Longrightarrow> x + w \<le> b \<or> b + w \<le> x"
  shows "seg (ld (st m b v)) a xs c \<longleftrightarrow> seg (ld m) a xs c"
  by (rule seg_cong) (simp add: assms ld_st_apart)

text \<open>Redirecting the last link of a segment.\<close>

lemma seg_redirect:
  assumes "seg (ld m) a (xs @ [p]) c" "v < lim"
    and "\<And>x. x \<in> set xs \<Longrightarrow> x + w \<le> p \<or> p + w \<le> x"
  shows "seg (ld (st m p v)) a (xs @ [p]) v"
  using assms seg_store_away [of xs p m v] by (auto simp: seg_append ld_st_same)

text \<open>Inserting a segment behind an element, and cutting one out.\<close>

lemma seg_insert:
  assumes "seg (ld m) a (xs @ p # zs) 0" and "seg (ld m) b ys c'" and "ys \<noteq> []"
    and "\<And>x. x \<in> set (xs @ zs) \<Longrightarrow> x + w \<le> p \<or> p + w \<le> x"
    and "\<And>x. x \<in> set ys \<Longrightarrow> x + w \<le> p \<or> p + w \<le> x" and "b < lim"
    and "c' = ld m p"
  shows "seg (ld (st m p b)) a (xs @ p # ys @ zs) 0"
proof -
  have same: "seg (ld (st m p b)) x xs y \<longleftrightarrow> seg (ld m) x xs y"
    "seg (ld (st m p b)) x ys y \<longleftrightarrow> seg (ld m) x ys y"
    "seg (ld (st m p b)) x zs y \<longleftrightarrow> seg (ld m) x zs y" for x y
    using assms(4,5) by (auto intro!: seg_store_away)
  show ?thesis using assms by (auto simp: seg_append ld_st_same same)
qed

lemma seg_cut:
  assumes "seg (ld m) a (xs @ p # ys @ zs) 0"
    and "\<And>x. x \<in> set (xs @ zs) \<Longrightarrow> x + w \<le> p \<or> p + w \<le> x"
    and "seg (ld m) b zs 0" "b < lim"
  shows "seg (ld (st m p b)) a (xs @ p # zs) 0"
proof -
  have same: "seg (ld (st m p b)) x xs y \<longleftrightarrow> seg (ld m) x xs y"
    "seg (ld (st m p b)) x zs y \<longleftrightarrow> seg (ld m) x zs y" for x y
    using assms(2) by (auto intro!: seg_store_away)
  show ?thesis using assms by (auto simp: seg_append ld_st_same same)
qed

end

interpretation ptrs: link_store "load_ptr A" "store_ptr A" "ptr_size A" "modulus A"
  by unfold_locales (auto simp: load_ptr_def store_ptr_def modulus_def mem_simps)

lemma load_ptr_less: "load_ptr A m a < modulus A"
  by (simp add: load_ptr_def modulus_def load_le_less)

section \<open>Walking a list\<close>

lemma find_place_seg:
  assumes "seg (load_ptr A m) start xs 0"
  shows "find_place A m block start prev =
    Some (case dropWhile (\<lambda>x. x < block) xs of [] \<Rightarrow> 0 | y # _ \<Rightarrow> y,
          if takeWhile (\<lambda>x. x < block) xs = [] then prev else Cell (last (takeWhile (\<lambda>x. x < block) xs)))"
  using assms
proof (induction xs arbitrary: start prev)
  case Nil
  then show ?case by (subst find_place.simps) simp
next
  case (Cons x xs)
  then have x: "start = x" "x \<noteq> 0" "seg (load_ptr A m) (load_ptr A m x) xs 0" by auto
  show ?case
  proof (cases "x < block")
    case True
    then show ?thesis using Cons.IH [OF x(3)] x by (subst find_place.simps) simp
  next
    case False
    then show ?thesis using x by (subst find_place.simps) simp
  qed
qed

section \<open>What a store leaves alone\<close>

definition same_outside :: "nat set \<Rightarrow> mem \<Rightarrow> mem \<Rightarrow> bool" where
  "same_outside S m m' \<longleftrightarrow> (\<forall>x. x \<notin> S \<longrightarrow> m' x = m x)"

definition cells :: "abi \<Rightarrow> nat set \<Rightarrow> nat set" where
  "cells A X = (\<Union>x \<in> X. {x ..< x + ptr_size A})"

lemma same_outside_refl [simp]: "same_outside S m m"
  by (simp add: same_outside_def)

lemma same_outside_trans:
  "same_outside S m m' \<Longrightarrow> same_outside T m' m'' \<Longrightarrow> same_outside (S \<union> T) m m''"
  by (auto simp: same_outside_def)

lemma same_outside_mono: "same_outside S m m' \<Longrightarrow> S \<subseteq> T \<Longrightarrow> same_outside T m m'"
  by (auto simp: same_outside_def)

lemma same_outside_store_ptr: "same_outside {a ..< a + ptr_size A} m (store_ptr A m a v)"
  by (auto simp: same_outside_def store_ptr_def intro!: store_le_outside)

lemma load_ptr_same:
  assumes "same_outside S m m'" "{a ..< a + ptr_size A} \<inter> S = {}"
  shows "load_ptr A m' a = load_ptr A m a"
  unfolding load_ptr_def
  by (rule load_le_cong) (use assms in \<open>auto simp: same_outside_def\<close>)

lemma seg_same:
  assumes "same_outside S m m'" "cells A (set xs) \<inter> S = {}"
  shows "seg (load_ptr A m') a xs b \<longleftrightarrow> seg (load_ptr A m) a xs b"
  using assms by (intro seg_cong load_ptr_same [of S]) (auto simp: cells_def)

end
