(* ===== verification/Pool_Rep.thy ===== *)
theory Pool_Rep
  imports Free_List
begin

text \<open>
  The abstract state of a pool, a sorted list of block addresses for each of the nine sizes, and
  its representation by the bucket array and the links in the blocks. Removing a run of blocks
  from a list and adding one to it, the two changes every operation is made of, are shown to
  implement their counterparts on the abstract lists.
\<close>

section \<open>Layouts\<close>

type_synonym lists = "nat \<Rightarrow> nat list"

definition apart :: "nat \<Rightarrow> nat \<Rightarrow> nat \<Rightarrow> nat \<Rightarrow> bool" where
  "apart i a j b \<longleftrightarrow> a + obj_bytes i \<le> b \<or> b + obj_bytes j \<le> a"

definition layout :: "lists \<Rightarrow> nat \<Rightarrow> nat \<Rightarrow> bool" where
  "layout F lo hi \<longleftrightarrow> 0 < lo \<and>
     (\<forall>i < 9. sorted_wrt (<) (F i) \<and> (\<forall>a \<in> set (F i). lo \<le> a \<and> a + obj_bytes i \<le> hi)) \<and>
     (\<forall>i < 9. \<forall>j < 9. \<forall>a \<in> set (F i). \<forall>b \<in> set (F j). (i, a) \<noteq> (j, b) \<longrightarrow> apart i a j b)"

definition bytes_of :: "nat \<Rightarrow> nat set \<Rightarrow> nat set" where
  "bytes_of i X = (\<Union>a \<in> X. {a ..< a + obj_bytes i})"

definition free_bytes :: "lists \<Rightarrow> nat set" where
  "free_bytes F = (\<Union>i \<in> {..<9}. bytes_of i (set (F i)))"

definition abi_ok :: "abi \<Rightarrow> bool" where
  "abi_ok A \<longleftrightarrow> ptr_size A = 4 \<or> ptr_size A = 8"

lemma abi_ok_instances [simp]: "abi_ok host_abi" "abi_ok guest_abi"
  by (simp_all add: abi_ok_def host_abi_def guest_abi_def)

lemma obj_bytes_ge: "16 \<le> obj_bytes i"
  by (simp add: obj_bytes_def OBJ_MIN_def)

lemma obj_bytes_Suc: "obj_bytes (Suc i) = 2 * obj_bytes i"
  by (simp add: obj_bytes_def)

lemma obj_bytes_le: "i < 9 \<Longrightarrow> obj_bytes i \<le> 4096"
proof -
  assume "i < 9"
  then have "(2 :: nat) ^ i \<le> 2 ^ 8" by (intro power_increasing) auto
  then show ?thesis by (simp add: obj_bytes_def OBJ_MIN_def)
qed

lemma ptr_in_block: "abi_ok A \<Longrightarrow> ptr_size A \<le> obj_bytes i"
  using obj_bytes_ge [of i] by (auto simp: abi_ok_def)

lemma cells_bytes: "abi_ok A \<Longrightarrow> cells A X \<subseteq> bytes_of i X"
  using ptr_in_block [of A i] by (fastforce simp: cells_def bytes_of_def)

lemma apart_disjoint: "apart i a j b \<Longrightarrow> {a ..< a + obj_bytes i} \<inter> {b ..< b + obj_bytes j} = {}"
  by (auto simp: apart_def)

lemma apart_cells:
  "abi_ok A \<Longrightarrow> apart i a j b \<Longrightarrow> a + ptr_size A \<le> b \<or> b + ptr_size A \<le> a"
  using ptr_in_block [of A i] ptr_in_block [of A j] by (auto simp: apart_def)

lemma apart_sym: "apart i a j b \<longleftrightarrow> apart j b i a"
  by (auto simp: apart_def)

lemma layout_apart:
  "layout F lo hi \<Longrightarrow> i < 9 \<Longrightarrow> j < 9 \<Longrightarrow> a \<in> set (F i) \<Longrightarrow> b \<in> set (F j) \<Longrightarrow> (i, a) \<noteq> (j, b) \<Longrightarrow> apart i a j b"
  by (simp add: layout_def)

lemma layout_in:
  "layout F lo hi \<Longrightarrow> i < 9 \<Longrightarrow> a \<in> set (F i) \<Longrightarrow> 0 < a \<and> lo \<le> a \<and> a + obj_bytes i \<le> hi"
  by (fastforce simp: layout_def)

text \<open>The length of a list is bounded by the bytes its blocks occupy.\<close>

lemma spaced_length:
  assumes "sorted_wrt (\<lambda>a b. a + k \<le> b) xs" "\<forall>a \<in> set xs. lo \<le> a \<and> a + k \<le> hi" "lo \<le> hi"
  shows "lo + k * length xs \<le> hi"
  using assms
proof (induction xs arbitrary: lo)
  case Nil
  then show ?case by simp
next
  case (Cons x xs)
  then have "x + k + k * length xs \<le> hi" by (intro Cons.IH) auto
  then show ?case using Cons.prems by auto
qed

lemma layout_spaced:
  assumes "layout F lo hi" "i < 9"
  shows "sorted_wrt (\<lambda>a b. a + obj_bytes i \<le> b) (F i)"
proof -
  have s: "sorted_wrt (<) (F i)" using assms by (simp add: layout_def)
  have "a + obj_bytes i \<le> b" if "a \<in> set (F i)" "b \<in> set (F i)" "a < b" for a b
    using layout_apart [OF assms(1,2,2) that(1,2)] that(3) obj_bytes_ge [of i] by (auto simp: apart_def)
  then show ?thesis by (rule sorted_wrt_mono_rel [OF _ s])
qed

lemma layout_length:
  assumes "layout F lo hi" "i < 9" "lo \<le> hi" "hi \<le> lo + 2 ^ 35"
  shows "length (F i) < 2 ^ 32"
proof -
  have "lo + obj_bytes i * length (F i) \<le> hi"
    using assms by (intro spaced_length layout_spaced) (auto simp: layout_def)
  moreover have "16 * length (F i) \<le> obj_bytes i * length (F i)"
    using obj_bytes_ge by (intro mult_le_mono1)
  ultimately have "16 * length (F i) \<le> 2 ^ 35" using assms(4) by linarith
  then show ?thesis by simp
qed

section \<open>Representation\<close>

definition bucket_ok :: "abi \<Rightarrow> mem \<Rightarrow> bucket \<Rightarrow> nat \<Rightarrow> nat list \<Rightarrow> bool" where
  "bucket_ok A m b i xs \<longleftrightarrow> obj_size b = of_nat (obj_bytes i) \<and> free_n b = of_nat (length xs) \<and>
     seg (load_ptr A m) (free_list b) xs 0"

definition wf :: "abi \<Rightarrow> pool \<Rightarrow> lists \<Rightarrow> nat \<Rightarrow> nat \<Rightarrow> bool" where
  "wf A P F lo hi \<longleftrightarrow> abi_ok A \<and> layout F lo hi \<and> lo \<le> hi \<and> hi \<le> lo + 2 ^ 35 \<and> hi < modulus A \<and>
     length (bds P) = 9 \<and> (\<forall>i < 9. bucket_ok A (blocks P) (bds P ! i) i (F i))"

lemma wf_bucket: "wf A P F lo hi \<Longrightarrow> i < 9 \<Longrightarrow> bucket_ok A (blocks P) (bds P ! i) i (F i)"
  by (simp add: wf_def)

lemma wf_free_n:
  assumes "wf A P F lo hi" "i < 9"
  shows "unat (free_n (bds P ! i)) = length (F i)" "free_n (bds P ! i) = 0 \<longleftrightarrow> F i = []"
proof -
  have "length (F i) < 2 ^ 32" using assms by (intro layout_length) (auto simp: wf_def)
  then show "unat (free_n (bds P ! i)) = length (F i)"
    using wf_bucket [OF assms] by (simp add: bucket_ok_def unat_of_nat)
  then show "free_n (bds P ! i) = 0 \<longleftrightarrow> F i = []" by (metis length_0_conv unat_eq_0)
qed

lemma wf_head:
  assumes "wf A P F lo hi" "i < 9"
  shows "free_list (bds P ! i) = (case F i of [] \<Rightarrow> 0 | a # _ \<Rightarrow> a)"
proof -
  have "seg (load_ptr A (blocks P)) (free_list (bds P ! i)) (F i) 0"
    using wf_bucket [OF assms] by (simp add: bucket_ok_def)
  then show ?thesis by (rule seg_start)
qed

lemma bucket_ok_same:
  "bucket_ok A m b i xs \<Longrightarrow> same_outside S m m' \<Longrightarrow> cells A (set xs) \<inter> S = {} \<Longrightarrow> bucket_ok A m' b i xs"
  by (auto simp: bucket_ok_def seg_same)

text \<open>The lists a pool represents are determined by it.\<close>

lemma wf_unique:
  assumes "wf A P F lo hi" "wf A P G lo hi" "i < 9"
  shows "F i = G i"
  using wf_bucket [OF assms(1,3)] wf_bucket [OF assms(2,3)] seg_unique by (auto simp: bucket_ok_def)

lemma cells_other:
  assumes "wf A P F lo hi" "i < 9" "j < 9" "i \<noteq> j" "X \<subseteq> set (F j)"
  shows "cells A (set (F i)) \<inter> cells A X = {}"
proof -
  have ok: "abi_ok A" and l: "layout F lo hi" using assms(1) by (auto simp: wf_def)
  have "{a ..< a + ptr_size A} \<inter> {b ..< b + ptr_size A} = {}" if "a \<in> set (F i)" "b \<in> X" for a b
    using apart_cells [OF ok layout_apart [OF l assms(2,3) that(1)]] that assms(4,5) by fastforce
  then show ?thesis by (fastforce simp: cells_def)
qed

text \<open>Rebuilding the invariant when one list has changed.\<close>

lemma wf_update:
  assumes wf: "wf A P F lo hi" and i: "i < 9" and lay: "layout (F(i := xs)) lo hi"
    and len: "length (bds P') = 9" and others: "\<And>j. j < 9 \<Longrightarrow> j \<noteq> i \<Longrightarrow> bds P' ! j = bds P ! j"
    and ok: "bucket_ok A (blocks P') (bds P' ! i) i xs"
    and same: "same_outside S (blocks P) (blocks P')"
    and away: "\<And>j. j < 9 \<Longrightarrow> j \<noteq> i \<Longrightarrow> cells A (set (F j)) \<inter> S = {}"
  shows "wf A P' (F(i := xs)) lo hi"
  using assms bucket_ok_same [OF wf_bucket [OF wf] same] by (auto simp: wf_def)

end
