(* ===== verification/Pool_Ops.thy ===== *)
theory Pool_Ops
  imports Pool_Rep
begin

text \<open>
  The two changes to a free list that every operation of the pool is made of: a run of blocks is
  cut out of the list, and a run of adjacent blocks is inserted in address order.
\<close>

section \<open>Cutting a run out\<close>

definition slot_of :: "nat list \<Rightarrow> slot" where
  "slot_of ys = (if ys = [] then Head else Cell (last ys))"

definition first :: "nat list \<Rightarrow> nat" where
  "first zs = (case zs of [] \<Rightarrow> 0 | z # _ \<Rightarrow> z)"

lemma first_simps [simp]: "first [] = 0" "first (z # zs) = z"
  by (simp_all add: first_def)

lemma first_append: "first (xs @ ys) = (if xs = [] then first ys else first xs)"
  by (cases xs) simp_all

lemma seg_first: "seg f a xs 0 \<Longrightarrow> a = first xs"
  using seg_start by (simp add: first_def)

lemma layout_subset:
  assumes "layout F lo hi" "sorted_wrt (<) xs" "set xs \<subseteq> set (F i)"
  shows "layout (F(i := xs)) lo hi"
proof -
  have "set ((F(i := xs)) j) \<subseteq> set (F j)" for j using assms(3) by auto
  moreover have "sorted_wrt (<) ((F(i := xs)) j)" if "j < 9" for j
    using assms(1,2) that by (simp add: layout_def)
  ultimately show ?thesis using assms(1) unfolding layout_def by (meson subsetD)
qed

lemma first_less:
  assumes "wf A P F lo hi" "i < 9" "set xs \<subseteq> set (F i)"
  shows "first xs < modulus A"
proof (cases xs)
  case (Cons x ys)
  have "x + obj_bytes i \<le> hi" "hi < modulus A"
    using assms Cons layout_in [of F lo hi i x] by (auto simp: wf_def)
  then show ?thesis using Cons by simp
qed (simp add: modulus_def)

lemma cells_apart:
  assumes "wf A P F lo hi" "i < 9" "a \<in> set (F i)" "b \<in> set (F i)" "a \<noteq> b"
  shows "a + ptr_size A \<le> b \<or> b + ptr_size A \<le> a"
  using assms layout_apart [of F lo hi i i a b] by (intro apart_cells [of A i a i b]) (auto simp: wf_def)

lemma bds_length_upd [simp]:
  "length (bds (upd_bucket i f P)) = length (bds P)" "length (bds (store_slot A i s v P)) = length (bds P)"
  by (auto simp: upd_bucket_def upd_blocks_def store_slot_def split: slot.splits)

lemma blocks_upd [simp]:
  "blocks (upd_bucket i f P) = blocks P" "bds (upd_blocks g P) = bds P"
  "blocks (upd_blocks g P) = g (blocks P)"
  by (simp_all add: upd_bucket_def upd_blocks_def)

lemma bds_upd [simp]:
  "i < length (bds P) \<Longrightarrow> bds (upd_bucket i f P) ! i = f (bds P ! i)"
  "i \<noteq> j \<Longrightarrow> bds (upd_bucket i f P) ! j = bds P ! j"
  by (simp_all add: upd_bucket_def)

definition take_n :: "nat \<Rightarrow> nat \<Rightarrow> pool \<Rightarrow> pool" where
  "take_n i k = upd_bucket i (\<lambda>b. b\<lparr>free_n := free_n b - of_nat k\<rparr>)"

lemma cut_bucket:
  assumes wf: "wf A P F lo hi" and i: "i < 9" and F: "F i = ys @ run @ zs" and v: "v = first zs"
    and P': "P' = take_n i (length run) (store_slot A i (slot_of ys) v P)"
  shows "bucket_ok A (blocks P') (bds P' ! i) i (ys @ zs)"
proof -
  have b: "bucket_ok A (blocks P) (bds P ! i) i (ys @ run @ zs)" using wf_bucket [OF wf i] F by simp
  have len: "i < length (bds P)" using wf i by (simp add: wf_def)
  show ?thesis
  proof (cases ys rule: rev_cases)
    case Nil
    have "seg (load_ptr A (blocks P)) v zs 0"
      using b Nil v by (auto simp: bucket_ok_def seg_append dest: seg_first)
    then show ?thesis using b Nil len
      by (simp add: P' take_n_def slot_of_def store_slot_def bucket_ok_def)
  next
    case (snoc xs p)
    have away: "x + ptr_size A \<le> p \<or> p + ptr_size A \<le> x" if "x \<in> set (xs @ zs)" for x
    proof -
      have "distinct (F i)" using wf i by (simp add: wf_def layout_def strict_sorted_iff)
      then have "x \<noteq> p" using that snoc F by auto
      then show ?thesis using that snoc F by (intro cells_apart [OF wf i]) auto
    qed
    have s: "seg (load_ptr A (blocks P)) (free_list (bds P ! i)) (xs @ p # run @ zs) 0"
      using b snoc by (simp add: bucket_ok_def)
    then have z: "seg (load_ptr A (blocks P)) v zs 0"
      using v by (auto simp: seg_append dest: seg_first)
    have "v < modulus A" using first_less [OF wf i, of zs] F v by auto
    then show ?thesis using ptrs.seg_cut [OF s away z] b snoc len
      by (simp add: P' take_n_def slot_of_def store_slot_def bucket_ok_def)
  qed
qed

lemma cut_wf:
  assumes wf: "wf A P F lo hi" and i: "i < 9" and F: "F i = ys @ run @ zs" and v: "v = first zs"
    and P': "P' = take_n i (length run) (store_slot A i (slot_of ys) v P)"
  shows "wf A P' (F(i := ys @ zs)) lo hi" "same_outside (cells A (set ys)) (blocks P) (blocks P')"
proof -
  show same: "same_outside (cells A (set ys)) (blocks P) (blocks P')"
  proof (cases "ys = []")
    case False
    then have "{last ys ..< last ys + ptr_size A} \<subseteq> cells A (set ys)" by (fastforce simp: cells_def)
    then show ?thesis using same_outside_mono [OF same_outside_store_ptr] False
      by (simp add: P' take_n_def store_slot_def slot_of_def)
  qed (simp add: P' take_n_def store_slot_def slot_of_def)
  have "sorted_wrt (<) (F i)" using wf i by (simp add: wf_def layout_def)
  then have lay: "layout (F(i := ys @ zs)) lo hi"
    using wf F by (intro layout_subset) (auto simp: wf_def sorted_wrt_append)
  show "wf A P' (F(i := ys @ zs)) lo hi"
  proof (rule wf_update [OF wf i lay _ _ cut_bucket [OF wf i F v P'] same])
    show "length (bds P') = 9" using wf by (simp add: P' take_n_def wf_def)
    show "bds P' ! j = bds P ! j" if "j \<noteq> i" for j
      using that by (auto simp: P' take_n_def store_slot_def split: slot.splits)
    show "cells A (set (F j)) \<inter> cells A (set ys) = {}" if "j < 9" "j \<noteq> i" for j
      using cells_other [OF wf that(1) i that(2)] F by auto
  qed
qed

section \<open>Inserting a run\<close>

definition run_of :: "nat \<Rightarrow> nat \<Rightarrow> nat \<Rightarrow> nat list" where
  "run_of i blk n = map (\<lambda>k. blk + k * obj_bytes i) [0..<n]"

definition put :: "lists \<Rightarrow> nat \<Rightarrow> nat \<Rightarrow> nat \<Rightarrow> lists" where
  "put F i blk n =
     F(i := takeWhile (\<lambda>x. x < blk) (F i) @ run_of i blk n @ dropWhile (\<lambda>x. x < blk) (F i))"

text \<open>A region that can be given to the pool: inside its bounds and apart from what it has.\<close>

definition fresh :: "lists \<Rightarrow> nat \<Rightarrow> nat \<Rightarrow> nat \<Rightarrow> nat \<Rightarrow> nat \<Rightarrow> bool" where
  "fresh F i blk n lo hi \<longleftrightarrow> lo \<le> blk \<and> blk + n * obj_bytes i \<le> hi \<and>
     {blk ..< blk + n * obj_bytes i} \<inter> free_bytes F = {}"

lemma length_run_of [simp]: "length (run_of i blk n) = n"
  by (simp add: run_of_def)

lemma run_of_0 [simp]: "run_of i blk 0 = []"
  by (simp add: run_of_def)

lemma run_of_nonempty [simp]: "run_of i blk n = [] \<longleftrightarrow> n = 0"
  by (simp add: run_of_def)

lemma run_of_iff: "a \<in> set (run_of i blk n) \<longleftrightarrow> (\<exists>k < n. a = blk + k * obj_bytes i)"
  unfolding run_of_def set_map set_upt image_def by (simp add: Bex_def)

lemma run_of_sorted: "sorted_wrt (<) (run_of i blk n)"
  using obj_bytes_ge [of i] by (auto simp: run_of_def sorted_wrt_map intro: sorted_wrt_mono_rel [OF _ sorted_wrt_upt])

lemma run_of_inside:
  assumes "a \<in> set (run_of i blk n)"
  shows "blk \<le> a" "a + obj_bytes i \<le> blk + n * obj_bytes i"
proof -
  obtain k where k: "a = blk + k * obj_bytes i" "k < n"
    using assms unfolding run_of_iff by blast
  have "(k + 1) * obj_bytes i \<le> n * obj_bytes i" using k(2) by (intro mult_le_mono1) simp
  then show "blk \<le> a" "a + obj_bytes i \<le> blk + n * obj_bytes i" using k(1) by auto
qed

lemma run_of_apart:
  assumes "a \<in> set (run_of i blk n)" "b \<in> set (run_of i blk n)" "a \<noteq> b"
  shows "apart i a i b"
proof -
  obtain k l where k: "a = blk + k * obj_bytes i" "b = blk + l * obj_bytes i"
    using assms unfolding run_of_iff by blast
  then consider "k + 1 \<le> l" | "l + 1 \<le> k" using assms(3) by fastforce
  then show ?thesis
  proof cases
    case 1
    then have "(k + 1) * obj_bytes i \<le> l * obj_bytes i" by (rule mult_le_mono1)
    then show ?thesis using k by (simp add: apart_def)
  next
    case 2
    then have "(l + 1) * obj_bytes i \<le> k * obj_bytes i" by (rule mult_le_mono1)
    then show ?thesis using k by (simp add: apart_def)
  qed
qed

lemma run_of_bytes: "bytes_of i (set (run_of i blk n)) = {blk ..< blk + n * obj_bytes i}"
proof (induction n)
  case (Suc n)
  have "run_of i blk (Suc n) = run_of i blk n @ [blk + n * obj_bytes i]" by (simp add: run_of_def)
  then have "bytes_of i (set (run_of i blk (Suc n))) =
      {blk ..< blk + n * obj_bytes i} \<union> {blk + n * obj_bytes i ..< blk + n * obj_bytes i + obj_bytes i}"
    using Suc by (auto simp: bytes_of_def)
  also have "\<dots> = {blk ..< blk + Suc n * obj_bytes i}" by auto
  finally show ?case .
qed (simp add: run_of_def bytes_of_def)

lemma set_put: "set (put F i blk n i) = set (run_of i blk n) \<union> set (F i)"
proof -
  let ?p = "\<lambda>x. x < blk"
  have "set (takeWhile ?p (F i)) \<union> set (dropWhile ?p (F i)) = set (F i)"
    by (metis set_append takeWhile_dropWhile_id)
  then show ?thesis unfolding put_def by auto
qed

lemma put_other [simp]: "j \<noteq> i \<Longrightarrow> put F i blk n j = F j"
  by (simp add: put_def)

lemma free_bytes_put:
  assumes "i < 9"
  shows "free_bytes (put F i blk n) = free_bytes F \<union> {blk ..< blk + n * obj_bytes i}"
proof -
  have "bytes_of j (set (put F i blk n j)) =
      bytes_of j (set (F j)) \<union> (if j = i then {blk ..< blk + n * obj_bytes i} else {})" for j
    using run_of_bytes [of i blk n] by (auto simp: set_put bytes_of_def)
  then show ?thesis using assms unfolding free_bytes_def by (simp add: UN_Un_distrib)
qed

lemma free_bytes_member:
  assumes "i < 9" "a \<in> set (F i)"
  shows "{a ..< a + obj_bytes i} \<subseteq> free_bytes F"
  using assms by (fastforce simp: free_bytes_def bytes_of_def)

lemma apart_fresh:
  assumes "fresh F i blk n lo hi" "a \<in> set (run_of i blk n)" "j < 9" "b \<in> set (F j)"
  shows "apart i a j b"
proof -
  have "{a ..< a + obj_bytes i} \<subseteq> {blk ..< blk + n * obj_bytes i}"
    using run_of_inside [OF assms(2)] by auto
  moreover have "{b ..< b + obj_bytes j} \<subseteq> free_bytes F"
    using assms(3,4) by (rule free_bytes_member)
  ultimately have "{a ..< a + obj_bytes i} \<inter> {b ..< b + obj_bytes j} = {}"
    using assms(1) unfolding fresh_def by blast
  then have "\<not> (b < a + obj_bytes i \<and> a < b + obj_bytes j)"
    using obj_bytes_ge [of i] obj_bytes_ge [of j] by (auto simp: disjoint_iff) 
  then show ?thesis by (auto simp: apart_def)
qed

lemma sorted_insert_run:
  assumes "sorted_wrt (<) xs" "sorted_wrt (<) (ys :: nat list)" "b \<notin> set xs"
    and "\<And>x y. x \<in> set xs \<Longrightarrow> y \<in> set ys \<Longrightarrow> (x < b \<longrightarrow> x < y) \<and> (b < x \<longrightarrow> y < x)"
  shows "sorted_wrt (<) (takeWhile (\<lambda>x. x < b) xs @ ys @ dropWhile (\<lambda>x. x < b) xs)"
proof -
  let ?l = "takeWhile (\<lambda>x. x < b) xs" and ?u = "dropWhile (\<lambda>x. x < b) xs"
  have s: "sorted_wrt (<) (?l @ ?u)" using assms(1) by simp
  have l: "x < b \<and> x \<in> set xs" if "x \<in> set ?l" for x using set_takeWhileD [OF that] by simp
  have u: "b < x \<and> x \<in> set xs" if "x \<in> set ?u" for x
  proof -
    have "x \<in> set xs" using that by (rule set_dropWhileD)
    moreover have "b \<le> x"
    proof (cases ?u)
      case Nil
      then show ?thesis using that by (metis empty_iff list.set(1))
    next
      case (Cons y zs)
      then have "\<not> y < b" using hd_dropWhile [of "\<lambda>x. x < b" xs] by simp
      moreover have "x = y \<or> y < x" using that Cons s by (auto simp: sorted_wrt_append)
      ultimately show ?thesis by auto
    qed
    ultimately show ?thesis using assms(3) by (metis order_le_less)
  qed
  have "\<forall>x \<in> set ?l. \<forall>y \<in> set ys. x < y" "\<forall>y \<in> set ys. \<forall>x \<in> set ?u. y < x"
    using assms(4) l u by blast+
  then show ?thesis using s assms(2) unfolding sorted_wrt_append set_append by blast
qed

lemma fresh_new:
  assumes "fresh F i blk n lo hi" "i < 9" "0 < n"
  shows "blk \<notin> set (F i)"
proof
  assume "blk \<in> set (F i)"
  moreover have "blk \<in> set (run_of i blk n)" using assms(3) by (auto simp: run_of_iff intro: exI [of _ 0])
  ultimately show False
    using apart_fresh [OF assms(1) _ assms(2)] obj_bytes_ge [of i] by (fastforce simp: apart_def)
qed

lemma layout_put:
  assumes lay: "layout F lo hi" and i: "i < 9" and fr: "fresh F i blk n lo hi"
  shows "layout (put F i blk n) lo hi"
proof -
  have order: "(x < blk \<longrightarrow> x < y) \<and> (blk < x \<longrightarrow> y < x)"
    if "x \<in> set (F i)" "y \<in> set (run_of i blk n)" for x y
  proof -
    have "\<not> (x < blk + n * obj_bytes i \<and> blk < x + obj_bytes i)"
    proof
      assume *: "x < blk + n * obj_bytes i \<and> blk < x + obj_bytes i"
      then have "max x blk \<in> {blk ..< blk + n * obj_bytes i} \<inter> {x ..< x + obj_bytes i}"
        using run_of_inside [OF that(2)] obj_bytes_ge [of i] by (cases "n = 0") auto
      moreover have "{x ..< x + obj_bytes i} \<subseteq> free_bytes F" using i that(1) by (rule free_bytes_member)
      ultimately show False using fr unfolding fresh_def by blast
    qed
    moreover have "blk + obj_bytes i \<le> blk + n * obj_bytes i" using run_of_inside [OF that(2)] by linarith
    ultimately show ?thesis using run_of_inside [OF that(2)] obj_bytes_ge [of i] by linarith
  qed
  have "sorted_wrt (<) (F i)" using lay i by (simp add: layout_def)
  then have si: "sorted_wrt (<) (put F i blk n i)"
    using sorted_insert_run [OF _ run_of_sorted fresh_new [OF fr i] order] by (cases "n = 0") (simp_all add: put_def)
  have inside: "lo \<le> a \<and> a + obj_bytes j \<le> hi" if "j < 9" "a \<in> set (put F i blk n j)" for j a
    using that layout_in [OF lay, of j a] run_of_inside [of a i blk n] fr
    by (cases "j = i") (auto simp: set_put fresh_def)
  have ap: "apart j a k b" if "j < 9" "k < 9" "a \<in> set (put F i blk n j)" "b \<in> set (put F i blk n k)"
    "(j, a) \<noteq> (k, b)" for j k a b
  proof -
    have *: "a \<in> set (F j) \<or> j = i \<and> a \<in> set (run_of i blk n)" "b \<in> set (F k) \<or> k = i \<and> b \<in> set (run_of i blk n)"
      using that(3,4) by (cases "j = i"; cases "k = i"; auto simp: set_put)+
    then show ?thesis
      using layout_apart [OF lay that(1,2)] apart_fresh [OF fr] run_of_apart that by (metis apart_sym)
  qed
  have "sorted_wrt (<) (put F i blk n j)" if "j < 9" for j
    using si lay that by (cases "j = i") (auto simp: layout_def)
  then show ?thesis using inside ap lay by (simp add: layout_def)
qed

section \<open>The links of a run\<close>

lemma elem_addr_in:
  assumes "blk + n * obj_bytes i \<le> hi" "hi < modulus A" "k < n"
  shows "elem_addr A i blk (int k) = blk + k * obj_bytes i"
proof -
  have "k * obj_bytes i \<le> n * obj_bytes i" using assms(3) by (intro mult_le_mono1) simp
  then have less: "blk + k * obj_bytes i < modulus A" using assms by linarith
  have "int blk + int k * int (obj_bytes i) = int (blk + k * obj_bytes i)" by simp
  then show ?thesis unfolding elem_addr_def using less by (metis mod_less nat_int zmod_int)
qed

lemma run_cells_order:
  assumes "abi_ok A" "k < l"
  shows "blk + k * obj_bytes i + ptr_size A \<le> blk + l * obj_bytes i"
proof -
  have "(k + 1) * obj_bytes i \<le> l * obj_bytes i" using assms(2) by (intro mult_le_mono1) simp
  then show ?thesis using ptr_in_block [OF assms(1), of i] unfolding add_mult_distrib by linarith
qed

lemma run_cells_apart:
  assumes "abi_ok A" "k \<noteq> l"
  shows "blk + k * obj_bytes i + ptr_size A \<le> blk + l * obj_bytes i \<or>
    blk + l * obj_bytes i + ptr_size A \<le> blk + k * obj_bytes i"
  using assms(2) run_cells_order [OF assms(1)] by (metis linorder_neqE_nat)

lemma link_run_seg:
  assumes "abi_ok A" "blk + n * obj_bytes i \<le> hi" "hi < modulus A" "j < n" "0 < blk"
  shows "seg (load_ptr A (link_run A i blk (int n) (int j) m)) (blk + j * obj_bytes i)
      (map (\<lambda>k. blk + k * obj_bytes i) [j..<n - 1]) (blk + (n - 1) * obj_bytes i) \<and>
    same_outside (cells A ((\<lambda>k. blk + k * obj_bytes i) ` {j..<n - 1})) m (link_run A i blk (int n) (int j) m)"
  using assms(4)
proof (induction "n - j" arbitrary: j m)
  case 0
  then show ?case by simp
next
  case (Suc d)
  let ?e = "\<lambda>k. blk + k * obj_bytes i"
  show ?case
  proof (cases "j < n - 1")
    case False
    then have "j = n - 1" "\<not> int j < int n - 1" using Suc.prems by auto
    moreover from this(2) have "link_run A i blk (int n) (int j) m = m" by (subst link_run.simps) simp
    ultimately show ?thesis by simp
  next
    case True
    let ?m = "store_ptr A m (?e j) (?e (j + 1))"
    have l: "link_run A i blk (int n) (int j) m = link_run A i blk (int n) (int (j + 1)) ?m"
    proof -
      have "int j < int n - 1" "int j + 1 = int (j + 1)" "j < n" "j + 1 < n" using True by auto
      then show ?thesis
        using elem_addr_in [OF assms(2,3), of j] elem_addr_in [OF assms(2,3), of "j + 1"]
        by (subst link_run.simps) presburger
    qed
    have "d = n - (j + 1)" "j + 1 < n" using Suc.hyps(2) True by auto
    from Suc.hyps(1) [OF this, of ?m]
    have IH: "seg (load_ptr A (link_run A i blk (int n) (int j) m)) (?e (j + 1)) (map ?e [j + 1..<n - 1]) (?e (n - 1))"
      "same_outside (cells A (?e ` {j + 1..<n - 1})) ?m (link_run A i blk (int n) (int j) m)"
      unfolding l by auto
    have sep: "{?e j ..< ?e j + ptr_size A} \<inter> cells A (?e ` {j + 1..<n - 1}) = {}"
    proof -
      have "{?e j ..< ?e j + ptr_size A} \<inter> {?e k ..< ?e k + ptr_size A} = {}" if "k \<in> {j + 1..<n - 1}" for k
        using run_cells_order [OF assms(1), of j k blk i] that by auto
      then show ?thesis unfolding cells_def by blast
    qed
    have at: "load_ptr A (link_run A i blk (int n) (int j) m) (?e j) = ?e (j + 1)"
    proof -
      have "?e (j + 1) < modulus A" "load_ptr A ?m (?e j) = ?e (j + 1)"
      proof -
        have "(j + 1) * obj_bytes i \<le> n * obj_bytes i" using True by (intro mult_le_mono1) simp
        then show "?e (j + 1) < modulus A" using assms by linarith
        then show "load_ptr A ?m (?e j) = ?e (j + 1)" by (rule ptrs.ld_st_same)
      qed
      then show ?thesis
        using load_ptr_same [OF IH(2) sep] by simp
    qed
    have up: "[j..<n - 1] = j # [j + 1..<n - 1]" using True by (simp add: upt_rec)
    have "same_outside (cells A (?e ` {j..<n - 1})) m (link_run A i blk (int n) (int j) m)"
      by (rule same_outside_mono [OF same_outside_trans [OF same_outside_store_ptr IH(2)]])
        (use True in \<open>fastforce simp: cells_def\<close>)
    then show ?thesis using IH(1) at assms(5) unfolding up by simp
  qed
qed

section \<open>pool_add_free\<close>

text \<open>The memory after the links of the run and its last link are stored.\<close>

lemma run_linked:
  assumes ok: "abi_ok A" and hi: "blk + n * obj_bytes i \<le> hi" "hi < modulus A" and n: "0 < n" "0 < blk"
    and m': "same_outside S (link_run A i blk (int n) 0 m) m'" "S \<inter> cells A (set (run_of i blk n)) = {}"
    and v: "v < modulus A"
  defines "m'' \<equiv> store_ptr A m' (elem_addr A i blk (int n - 1)) v"
  shows "seg (load_ptr A m'') blk (run_of i blk n) v"
    "same_outside (S \<union> cells A (set (run_of i blk n))) m m''"
proof -
  let ?e = "\<lambda>k. blk + k * obj_bytes i" and ?m = "link_run A i blk (int n) 0 m"
  have run: "run_of i blk n = map ?e [0..<n - 1] @ [?e (n - 1)]"
  proof -
    obtain k where "n = Suc k" using n(1) gr0_conv_Suc by auto
    then show ?thesis by (simp add: run_of_def)
  qed
  have last: "elem_addr A i blk (int n - 1) = ?e (n - 1)"
    using elem_addr_in [OF hi, of "n - 1"] n(1) by (simp add: of_nat_diff)
  have s: "seg (load_ptr A ?m) blk (map ?e [0..<n - 1]) (?e (n - 1))"
    "same_outside (cells A (?e ` {0..<n - 1})) m ?m"
    using link_run_seg [OF ok hi n(1,2), of m] by simp_all
  have "cells A (set (map ?e [0..<n - 1])) \<inter> S = {}" using m'(2) unfolding run cells_def by auto
  then have "seg (load_ptr A m') blk (map ?e [0..<n - 1]) (?e (n - 1))"
    using s(1) seg_same [OF m'(1)] by blast
  then have "seg (load_ptr A m') blk (map ?e [0..<n - 1] @ [?e (n - 1)]) (load_ptr A m' (?e (n - 1)))"
    using n(2) by (simp add: seg_append)
  moreover have "x + ptr_size A \<le> ?e (n - 1) \<or> ?e (n - 1) + ptr_size A \<le> x"
    if x: "x \<in> set (map ?e [0..<n - 1])" for x
  proof -
    obtain k where k: "x = ?e k" "k \<in> {0..<n - 1}" using x unfolding set_map set_upt by blast
    then show ?thesis using run_cells_apart [OF ok, of k "n - 1" blk i] by simp
  qed
  ultimately show "seg (load_ptr A m'') blk (run_of i blk n) v"
    unfolding m''_def last run using v by (intro ptrs.seg_redirect)
  have "same_outside (cells A (?e ` {0..<n - 1}) \<union> S \<union> {?e (n - 1) ..< ?e (n - 1) + ptr_size A}) m m''"
    unfolding m''_def last by (intro same_outside_trans [OF _ same_outside_store_ptr] same_outside_trans [OF s(2) m'(1)])
  then show "same_outside (S \<union> cells A (set (run_of i blk n))) m m''"
    by (rule same_outside_mono) (auto simp: run cells_def)
qed

lemma cells_run_apart:
  assumes wf: "wf A P F lo hi" and i: "i < 9" and fr: "fresh F i blk n lo hi" and j: "j < 9"
  shows "cells A (set (F j)) \<inter> cells A (set (run_of i blk n)) = {}"
proof -
  have ok: "abi_ok A" using wf by (simp add: wf_def)
  have "{b ..< b + ptr_size A} \<inter> {a ..< a + ptr_size A} = {}"
    if "a \<in> set (run_of i blk n)" "b \<in> set (F j)" for a b
    using apart_cells [OF ok apart_fresh [OF fr that(1) j that(2)]] by auto
  then show ?thesis unfolding cells_def by blast
qed

lemma put_wf:
  assumes wf: "wf A P F lo hi" and i: "i < 9" and fr: "fresh F i blk n lo hi"
    and len: "length (bds P') = 9" and others: "\<And>j. j \<noteq> i \<Longrightarrow> bds P' ! j = bds P ! j"
    and size: "obj_size (bds P' ! i) = obj_size (bds P ! i)"
    and count: "free_n (bds P' ! i) = free_n (bds P ! i) + of_nat n"
    and links: "seg (load_ptr A (blocks P')) (free_list (bds P' ! i)) (put F i blk n i) 0"
    and same: "same_outside (cells A (set (F i)) \<union> cells A (set (run_of i blk n))) (blocks P) (blocks P')"
  shows "wf A P' (put F i blk n) lo hi"
proof -
  have put: "put F i blk n = F(i := put F i blk n i)" by (simp add: put_def)
  have "length (put F i blk n i) = length (F i) + n"
    using length_append [of "takeWhile (\<lambda>x. x < blk) (F i)" "dropWhile (\<lambda>x. x < blk) (F i)"]
    by (simp add: put_def)
  then have ok: "bucket_ok A (blocks P') (bds P' ! i) i (put F i blk n i)"
    using wf_bucket [OF wf i] size count links by (simp add: bucket_ok_def)
  have lay: "layout (F(i := put F i blk n i)) lo hi"
    using layout_put [OF _ i fr] wf put by (simp add: wf_def)
  have "cells A (set (F j)) \<inter> (cells A (set (F i)) \<union> cells A (set (run_of i blk n))) = {}"
    if "j < 9" "j \<noteq> i" for j
    using cells_other [OF wf that(1) i that(2) order_refl] cells_run_apart [OF wf i fr that(1)] by blast
  then show ?thesis by (subst put) (rule wf_update [OF wf i lay len others ok same])
qed

lemma add_free_front:
  assumes "wf A P F lo hi" "i < 9" "0 < n" "fresh F i blk n lo hi" "takeWhile (\<lambda>x. x < blk) (F i) = []"
  shows "pool_add_free A i blk (int n) P =
    Some (upd_bucket i (\<lambda>b. b\<lparr>free_n := free_n b + of_nat n\<rparr>)
      (upd_bucket i (\<lambda>b. b\<lparr>free_list := blk\<rparr>)
        (upd_blocks (\<lambda>m. store_ptr A (link_run A i blk (int n) 0 m) (elem_addr A i blk (int n - 1)) (first (F i))) P)))"
proof -
  have "seg (load_ptr A (blocks P)) (free_list (bds P ! i)) (F i) 0"
    using wf_bucket [OF assms(1,2)] by (simp add: bucket_ok_def)
  then have start: "free_list (bds P ! i) = first (F i)" and nz: "0 \<notin> set (F i)"
    by (rule seg_first, metis seg_nonzero)
  have "blk \<notin> set (F i)" using fresh_new assms by blast
  then have "F i \<noteq> [] \<Longrightarrow> blk < first (F i)" using assms(5) by (cases "F i") (auto split: if_splits)
  then show ?thesis using start nz assms(2)
    by (cases "F i") (simp_all add: pool_add_free_def BUDY_COUNT_def Let_def upd_blocks_def store_slot_def)
qed

lemma add_free_behind:
  assumes "wf A P F lo hi" "i < 9" "0 < n" "fresh F i blk n lo hi" "takeWhile (\<lambda>x. x < blk) (F i) \<noteq> []"
  shows "pool_add_free A i blk (int n) P =
    Some (upd_bucket i (\<lambda>b. b\<lparr>free_n := free_n b + of_nat n\<rparr>)
      (upd_blocks (\<lambda>m. store_ptr A (store_ptr A (link_run A i blk (int n) 0 m) (last (takeWhile (\<lambda>x. x < blk) (F i))) blk)
          (elem_addr A i blk (int n - 1)) (first (dropWhile (\<lambda>x. x < blk) (F i)))) P))"
proof -
  let ?m = "link_run A i blk (int n) 0 (blocks P)"
  have ok: "abi_ok A" and hi: "blk + n * obj_bytes i \<le> hi" "hi < modulus A" and pos: "0 < blk"
    using assms(1,4) by (auto simp: wf_def fresh_def layout_def)
  have old: "seg (load_ptr A (blocks P)) (free_list (bds P ! i)) (F i) 0"
    using wf_bucket [OF assms(1,2)] by (simp add: bucket_ok_def)
  have "seg (load_ptr A ?m) (free_list (bds P ! i)) (F i) 0"
  proof -
    have "same_outside (cells A ((\<lambda>k. blk + k * obj_bytes i) ` {0..<n - 1})) (blocks P) ?m"
      using link_run_seg [OF ok hi assms(3) pos, of "blocks P"] by simp
    moreover have "cells A ((\<lambda>k. blk + k * obj_bytes i) ` {0..<n - 1}) \<subseteq> cells A (set (run_of i blk n))"
      unfolding cells_def run_of_def set_map set_upt by (intro UN_mono image_mono) auto
    ultimately have "same_outside (cells A (set (run_of i blk n))) (blocks P) ?m" by (rule same_outside_mono)
    then show ?thesis using seg_same cells_run_apart [OF assms(1,2,4,2)] old by blast
  qed
  note walk = find_place_seg [OF this, of blk Head]
  obtain a xs where F: "F i = a # xs" "a < blk" using assms(5) by (cases "F i") (auto split: if_splits)
  then have "free_list (bds P ! i) = a" "a \<noteq> 0" using old by auto
  then show ?thesis using walk assms(2,5) F
    by (simp add: pool_add_free_def BUDY_COUNT_def Let_def upd_blocks_def store_slot_def first_def)
qed

lemma free_list_parts:
  assumes "wf A P F lo hi" "i < 9"
  shows "seg (load_ptr A (blocks P)) (free_list (bds P ! i))
      (takeWhile (\<lambda>x. x < blk) (F i)) (first (dropWhile (\<lambda>x. x < blk) (F i)))"
    "seg (load_ptr A (blocks P)) (first (dropWhile (\<lambda>x. x < blk) (F i))) (dropWhile (\<lambda>x. x < blk) (F i)) 0"
proof -
  have "seg (load_ptr A (blocks P)) (free_list (bds P ! i))
      (takeWhile (\<lambda>x. x < blk) (F i) @ dropWhile (\<lambda>x. x < blk) (F i)) 0"
    using wf_bucket [OF assms] by (simp add: bucket_ok_def)
  then obtain b where b: "seg (load_ptr A (blocks P)) (free_list (bds P ! i)) (takeWhile (\<lambda>x. x < blk) (F i)) b"
    "seg (load_ptr A (blocks P)) b (dropWhile (\<lambda>x. x < blk) (F i)) 0"
    unfolding seg_append by blast
  moreover from b(2) have "b = first (dropWhile (\<lambda>x. x < blk) (F i))" by (rule seg_first)
  ultimately show "seg (load_ptr A (blocks P)) (free_list (bds P ! i))
      (takeWhile (\<lambda>x. x < blk) (F i)) (first (dropWhile (\<lambda>x. x < blk) (F i)))"
    "seg (load_ptr A (blocks P)) (first (dropWhile (\<lambda>x. x < blk) (F i))) (dropWhile (\<lambda>x. x < blk) (F i)) 0"
    by simp_all
qed

lemma links_front:
  assumes wf: "wf A P F lo hi" and i: "i < 9" and n: "0 < n" and fr: "fresh F i blk n lo hi"
    and front: "takeWhile (\<lambda>x. x < blk) (F i) = []"
  defines "m' \<equiv> store_ptr A (link_run A i blk (int n) 0 (blocks P)) (elem_addr A i blk (int n - 1)) (first (F i))"
  shows "seg (load_ptr A m') blk (put F i blk n i) 0"
    "same_outside (cells A (set (F i)) \<union> cells A (set (run_of i blk n))) (blocks P) m'"
proof -
  have up: "dropWhile (\<lambda>x. x < blk) (F i) = F i"
    using front takeWhile_dropWhile_id [of "\<lambda>x. x < blk" "F i"] by simp
  have ok: "abi_ok A" "blk + n * obj_bytes i \<le> hi" "hi < modulus A" "0 < blk"
    using wf fr by (auto simp: wf_def fresh_def layout_def)
  have "first (F i) < modulus A" using first_less [OF wf i] by simp
  note L = run_linked [OF ok(1-3) n ok(4) same_outside_refl [of "{}"] _ this, of "blocks P", folded m'_def]
  have "seg (load_ptr A (blocks P)) (first (F i)) (F i) 0"
    using free_list_parts(2) [OF wf i, of blk] up by simp
  then have "seg (load_ptr A m') (first (F i)) (F i) 0"
    using seg_same [OF L(2)] cells_run_apart [OF wf i fr i] by simp
  then show "seg (load_ptr A m') blk (put F i blk n i) 0"
    using L(1) front up by (auto simp: put_def seg_append)
  show "same_outside (cells A (set (F i)) \<union> cells A (set (run_of i blk n))) (blocks P) m'"
    using L(2) by (rule same_outside_mono) simp_all
qed

text \<open>The link of the last block of the lower part is redirected to the run.\<close>

lemma split_at_last:
  assumes "distinct (ys @ zs)" "ys \<noteq> []" "x \<in> set (butlast ys @ zs)"
  shows "x \<in> set (ys @ zs) \<and> x \<noteq> last ys"
  using assms by (cases ys rule: rev_cases) auto

lemma links_behind:
  assumes wf: "wf A P F lo hi" and i: "i < 9" and n: "0 < n" and fr: "fresh F i blk n lo hi"
    and ne: "takeWhile (\<lambda>x. x < blk) (F i) \<noteq> []"
  defines "p \<equiv> last (takeWhile (\<lambda>x. x < blk) (F i))"
  defines "m' \<equiv> store_ptr A (store_ptr A (link_run A i blk (int n) 0 (blocks P)) p blk)
    (elem_addr A i blk (int n - 1)) (first (dropWhile (\<lambda>x. x < blk) (F i)))"
  shows "seg (load_ptr A m') (free_list (bds P ! i)) (put F i blk n i) 0"
    "same_outside (cells A (set (F i)) \<union> cells A (set (run_of i blk n))) (blocks P) m'"
proof -
  let ?lower = "takeWhile (\<lambda>x. x < blk) (F i)" and ?upper = "dropWhile (\<lambda>x. x < blk) (F i)"
  let ?S = "{p ..< p + ptr_size A} \<union> cells A (set (run_of i blk n))"
  have ok: "abi_ok A" and hi: "blk + n * obj_bytes i \<le> hi" "hi < modulus A" and pos: "0 < blk"
    using wf fr by (auto simp: wf_def fresh_def layout_def)
  have sep: "cells A (set (F i)) \<inter> cells A (set (run_of i blk n)) = {}" using cells_run_apart [OF wf i fr i] .
  have v: "first ?upper < modulus A" using first_less [OF wf i] by (metis set_dropWhileD subsetI)
  have p: "p \<in> set (F i)" unfolding p_def using last_in_set [OF ne] by (rule set_takeWhileD [THEN conjunct1])
  have pc: "{p ..< p + ptr_size A} \<subseteq> cells A (set (F i))" using p unfolding cells_def by blast
  then have "{p ..< p + ptr_size A} \<inter> cells A (set (run_of i blk n)) = {}" using sep by blast
  note L = run_linked [OF ok hi n pos same_outside_store_ptr this v, of "blocks P" blk, folded m'_def]
  have "cells A (set (butlast ?lower @ ?upper)) \<inter> ?S = {}"
  proof -
    have "distinct (?lower @ ?upper)" using wf i by (simp add: wf_def layout_def strict_sorted_iff)
    from split_at_last [OF this ne] have other: "x \<in> set (F i) \<and> x \<noteq> p" if "x \<in> set (butlast ?lower @ ?upper)" for x
      using that by (simp add: p_def)
    then have "{x ..< x + ptr_size A} \<inter> {p ..< p + ptr_size A} = {}" if "x \<in> set (butlast ?lower @ ?upper)" for x
      using cells_apart [OF wf i _ p] that by fastforce
    moreover have "cells A (set (butlast ?lower @ ?upper)) \<subseteq> cells A (set (F i))"
      unfolding cells_def using other by (intro UN_mono) auto
    ultimately show ?thesis using sep unfolding cells_def by blast
  qed
  then have keep: "cells A (set (butlast ?lower)) \<inter> ?S = {}" "cells A (set ?upper) \<inter> ?S = {}"
    by (auto simp: cells_def)
  have lower: "?lower = butlast ?lower @ [p]" using ne by (simp add: p_def)
  have "seg (load_ptr A (blocks P)) (free_list (bds P ! i)) (butlast ?lower @ [p]) (first ?upper)"
    using free_list_parts(1) [OF wf i, of blk] lower by simp
  then have "seg (load_ptr A (blocks P)) (free_list (bds P ! i)) (butlast ?lower) p" "p \<noteq> 0"
    by (auto simp: seg_append)
  then have 1: "seg (load_ptr A m') (free_list (bds P ! i)) (butlast ?lower) p"
    using seg_same [OF L(2) keep(1)] by blast
  have "elem_addr A i blk (int n - 1) = blk + (n - 1) * obj_bytes i"
    using elem_addr_in [OF hi, of "n - 1"] n by (simp add: of_nat_diff)
  then have "elem_addr A i blk (int n - 1) \<in> set (run_of i blk n)"
    unfolding run_of_iff using n by (intro exI [of _ "n - 1"]) simp
  then have "p + ptr_size A \<le> elem_addr A i blk (int n - 1) \<or> elem_addr A i blk (int n - 1) + ptr_size A \<le> p"
    using apart_cells [OF ok apart_fresh [OF fr _ i p]] by blast
  then have "load_ptr A m' p = blk"
  proof -
    have "blk < modulus A" using hi by linarith
    then show ?thesis unfolding m'_def
      using ptrs.ld_st_apart [OF \<open>p + ptr_size A \<le> _ \<or> _\<close>] ptrs.ld_st_same by simp
  qed
  moreover have "seg (load_ptr A m') (first ?upper) ?upper 0"
    using free_list_parts(2) [OF wf i, of blk] seg_same [OF L(2) keep(2)] by blast
  ultimately have "seg (load_ptr A m') (free_list (bds P ! i)) ((butlast ?lower @ [p]) @ run_of i blk n @ ?upper) 0"
    using 1 L(1) \<open>p \<noteq> 0\<close> unfolding seg_append by auto
  then show "seg (load_ptr A m') (free_list (bds P ! i)) (put F i blk n i) 0"
    using lower by (simp add: put_def)
  show "same_outside (cells A (set (F i)) \<union> cells A (set (run_of i blk n))) (blocks P) m'"
    using L(2) by (rule same_outside_mono) (use pc in blast)
qed

lemma add_free_ok:
  assumes wf: "wf A P F lo hi" and i: "i < 9" and n: "0 < n" and fr: "fresh F i blk n lo hi"
  shows "\<exists>P'. pool_add_free A i blk (int n) P = Some P' \<and> wf A P' (put F i blk n) lo hi \<and>
    same_outside (cells A (set (F i)) \<union> cells A (set (run_of i blk n))) (blocks P) (blocks P')"
proof (cases "takeWhile (\<lambda>x. x < blk) (F i) = []")
  have len: "length (bds P) = 9" using wf by (simp add: wf_def)
  case True
  then show ?thesis
    using add_free_front [OF assms] links_front [OF assms] len i by (auto intro!: put_wf [OF wf i fr])
next
  have len: "length (bds P) = 9" using wf by (simp add: wf_def)
  case False
  then show ?thesis
    using add_free_behind [OF assms] links_behind [OF assms] len i by (auto intro!: put_wf [OF wf i fr])
qed

end
