(* ===== verification/Pool_Moves.thy ===== *)
theory Pool_Moves
  imports Pool_Ops
begin

text \<open>
  Splitting and merging: \<open>pool_pull_upper\<close> and \<open>pool_try_shrink\<close> return, keep the pool well formed
  and move bytes between the lists without losing or inventing any.
\<close>

section \<open>Bytes\<close>

lemma cells_free_bytes:
  assumes "abi_ok A" "i < 9"
  shows "cells A (set (F i)) \<subseteq> free_bytes F"
  using cells_bytes [OF assms(1), of "set (F i)" i] assms(2) unfolding free_bytes_def by blast

lemma cut_bytes:
  assumes lay: "layout F lo hi" and i: "i < 9" and F: "F i = ys @ run @ zs"
  shows "free_bytes F = free_bytes (F(i := ys @ zs)) \<union> bytes_of i (set run)"
    "free_bytes (F(i := ys @ zs)) \<inter> bytes_of i (set run) = {}"
proof -
  have "bytes_of j (set (F j)) =
      bytes_of j (set ((F(i := ys @ zs)) j)) \<union> (if j = i then bytes_of i (set run) else {})" for j
    using F by (auto simp: bytes_of_def)
  then show "free_bytes F = free_bytes (F(i := ys @ zs)) \<union> bytes_of i (set run)"
    using i unfolding free_bytes_def by (simp add: UN_Un_distrib)
  have "{b ..< b + obj_bytes j} \<inter> {a ..< a + obj_bytes i} = {}"
    if "j < 9" "b \<in> set ((F(i := ys @ zs)) j)" "a \<in> set run" for j a b
  proof -
    have "distinct (F i)" using lay i by (simp add: layout_def strict_sorted_iff)
    then have "b \<in> set (F j)" "a \<in> set (F i)" "(j, b) \<noteq> (i, a)" using that F by (auto split: if_splits)
    then show ?thesis using apart_disjoint layout_apart [OF lay that(1) i] by blast
  qed
  then show "free_bytes (F(i := ys @ zs)) \<inter> bytes_of i (set run) = {}"
    unfolding free_bytes_def bytes_of_def by blast
qed

lemma add_free_bytes:
  assumes "wf A P F lo hi" "i < 9" "0 < n" "fresh F i blk n lo hi"
  obtains P' where "pool_add_free A i blk (int n) P = Some P'" "wf A P' (put F i blk n) lo hi"
    "same_outside (free_bytes F \<union> {blk ..< blk + n * obj_bytes i}) (blocks P) (blocks P')"
proof -
  have ok: "abi_ok A" using assms(1) by (simp add: wf_def)
  have "cells A (set (F i)) \<union> cells A (set (run_of i blk n)) \<subseteq> free_bytes F \<union> {blk ..< blk + n * obj_bytes i}"
    using cells_free_bytes [OF ok assms(2)] cells_bytes [OF ok, of "set (run_of i blk n)" i] run_of_bytes [of i blk n]
    by blast
  then show thesis using add_free_ok [OF assms] same_outside_mono that by blast
qed

text \<open>Writing outside the free blocks does not disturb the lists.\<close>

lemma wf_write:
  assumes wf: "wf A P F lo hi" and same: "\<And>m. same_outside S m (g m)" "S \<inter> free_bytes F = {}"
  shows "wf A (upd_blocks g P) F lo hi"
proof -
  have "cells A (set (F i)) \<inter> S = {}" if "i < 9" for i
    using cells_free_bytes [of A i F] wf same(2) that by (auto simp: wf_def)
  then show ?thesis using wf bucket_ok_same [OF _ same(1)] by (simp add: wf_def)
qed

text \<open>Taking the first block of a list.\<close>

definition pop :: "abi \<Rightarrow> nat \<Rightarrow> pool \<Rightarrow> pool" where
  "pop A i P = upd_bucket i (\<lambda>b. b\<lparr>free_n := free_n b - 1\<rparr>)
     (upd_bucket i (\<lambda>b. b\<lparr>free_list := load_ptr A (blocks P) (free_list (bds P ! i))\<rparr>) P)"

lemma pop_ok:
  assumes wf: "wf A P F lo hi" and i: "i < 9" and F: "F i = a # zs"
  shows "free_list (bds P ! i) = a" "wf A (pop A i P) (F(i := zs)) lo hi" "blocks (pop A i P) = blocks P"
proof -
  have s: "seg (load_ptr A (blocks P)) (free_list (bds P ! i)) (a # zs) 0"
    using wf_bucket [OF wf i] F by (simp add: bucket_ok_def)
  then show a: "free_list (bds P ! i) = a" by simp
  have "load_ptr A (blocks P) a = first zs" using s by (auto dest: seg_first)
  then have "pop A i P = take_n i (length [a]) (store_slot A i (slot_of []) (first zs) P)"
    by (simp add: pop_def a take_n_def slot_of_def store_slot_def)
  then show "wf A (pop A i P) (F(i := zs)) lo hi" using cut_wf(1) [OF wf i _ refl, of "[]" "[a]" zs] F by simp
  show "blocks (pop A i P) = blocks P" by (simp add: pop_def)
qed

lemma region_fresh:
  assumes "layout F lo hi" "i < 9" "F i = ys @ run @ zs" "bytes_of i (set run) = {a ..< a + n * obj_bytes k}"
    and "lo \<le> a" "a + n * obj_bytes k \<le> hi"
  shows "fresh (F(i := ys @ zs)) k a n lo hi"
  using cut_bytes(2) [OF assms(1-3)] assms(4-6) by (auto simp: fresh_def)

section \<open>pool_pull_upper\<close>

lemma split_block_ok:
  assumes wf: "wf A P F lo hi" and i: "i + 1 < 9" and F: "F (i + 1) = a # zs"
  defines "Q \<equiv> upd_blocks (\<lambda>m. store_ptr A m (a + obj_bytes i) 0)
    (upd_blocks (\<lambda>m. store_ptr A m a (a + obj_bytes i)) (pop A (i + 1) P))"
  obtains P' where "pool_add_free A i a 2 Q = Some P'" "wf A P' (put (F(i + 1 := zs)) i a 2) lo hi"
    "free_bytes (put (F(i + 1 := zs)) i a 2) = free_bytes F" "same_outside (free_bytes F) (blocks P) (blocks P')"
proof -
  have ok: "abi_ok A" and lay: "layout F lo hi" using wf by (auto simp: wf_def)
  have size: "obj_bytes (i + 1) = 2 * obj_bytes i" by (simp add: obj_bytes_Suc)
  have one: "bytes_of (i + 1) (set [a]) = {a ..< a + 2 * obj_bytes i}" by (simp add: bytes_of_def obj_bytes_Suc)
  have F1: "F (i + 1) = [] @ [a] @ zs" using F by simp
  have in_pool: "lo \<le> a" "a + 2 * obj_bytes i \<le> hi" using layout_in [OF lay i, of a] F size by auto
  have fr: "fresh (F(i + 1 := zs)) i a 2 lo hi" using region_fresh [OF lay i F1 one in_pool] by simp
  have bytes: "free_bytes F = free_bytes (F(i + 1 := zs)) \<union> {a ..< a + 2 * obj_bytes i}"
    using cut_bytes(1) [OF lay i F1] one by simp
  have two: "{a ..< a + ptr_size A} \<subseteq> {a ..< a + 2 * obj_bytes i}"
    "{a + obj_bytes i ..< a + obj_bytes i + ptr_size A} \<subseteq> {a ..< a + 2 * obj_bytes i}"
    using ptr_in_block [OF ok, of i] by auto
  have Q: "Q = upd_blocks (\<lambda>m. store_ptr A (store_ptr A m a (a + obj_bytes i)) (a + obj_bytes i) 0) (pop A (i + 1) P)"
    by (simp add: Q_def upd_blocks_def)
  have w: "same_outside {a ..< a + 2 * obj_bytes i} m (store_ptr A (store_ptr A m a (a + obj_bytes i)) (a + obj_bytes i) 0)" for m
    by (rule same_outside_mono [OF same_outside_trans [OF same_outside_store_ptr same_outside_store_ptr]]) (use two in blast)
  have wfQ: "wf A Q (F(i + 1 := zs)) lo hi"
    unfolding Q by (rule wf_write [OF pop_ok(2) [OF wf i F] w]) (use fr in \<open>simp add: fresh_def\<close>)
  have i': "i < 9" using i by simp
  obtain P' where P': "pool_add_free A i a (int 2) Q = Some P'" "wf A P' (put (F(i + 1 := zs)) i a 2) lo hi"
    "same_outside (free_bytes (F(i + 1 := zs)) \<union> {a ..< a + 2 * obj_bytes i}) (blocks Q) (blocks P')"
    using add_free_bytes [OF wfQ i' _ fr] by auto
  have "same_outside ({a ..< a + 2 * obj_bytes i} \<union> free_bytes F) (blocks P) (blocks P')"
    using same_outside_trans [OF w P'(3) [folded bytes, unfolded Q blocks_upd pop_ok(3) [OF wf i F]]] .
  then have "same_outside (free_bytes F) (blocks P) (blocks P')" using bytes by (simp add: Un_absorb1)
  moreover have "free_bytes (put (F(i + 1 := zs)) i a 2) = free_bytes F"
    using free_bytes_put [OF i'] bytes by simp
  ultimately show thesis using that P' by simp
qed

lemma pull_step:
  assumes "(if free_n (bds P ! (i + 1)) = 0 then pool_pull_upper A (i + 1) P else Some P) = Some P'" "i + 1 < 9"
  shows "pool_pull_upper A i P =
    (if free_n (bds P' ! (i + 1)) = 0 then Some P'
     else pool_add_free A i (free_list (bds P' ! (i + 1))) 2
       (upd_blocks (\<lambda>m. store_ptr A m (free_list (bds P' ! (i + 1)) + obj_bytes i) 0)
         (upd_blocks (\<lambda>m. store_ptr A m (free_list (bds P' ! (i + 1))) (free_list (bds P' ! (i + 1)) + obj_bytes i))
           (pop A (i + 1) P'))))"
  using assms
  by (subst pool_pull_upper.simps, cases "free_n (bds P ! (i + 1)) = 0") (simp_all add: Let_def BUDY_COUNT_def pop_def)

lemma pull_upper_ok:
  assumes "wf A P F lo hi" "i < 9"
  shows "\<exists>P' F'. pool_pull_upper A i P = Some P' \<and> wf A P' F' lo hi \<and> free_bytes F' = free_bytes F \<and>
    same_outside (free_bytes F) (blocks P) (blocks P') \<and>
    (if \<forall>j. i < j \<and> j < 9 \<longrightarrow> F j = [] then P' = P \<and> F' = F else F' i \<noteq> [])"
  using assms
proof (induction "8 - i" arbitrary: i)
  case 0
  then have "i = 8" by simp
  then show ?case using 0 by (subst pool_pull_upper.simps) (auto simp: Let_def BUDY_COUNT_def)
next
  case (Suc d)
  then have i: "i + 1 < 9" "d = 8 - (i + 1)" by auto
  let ?none = "\<forall>j. i < j \<and> j < 9 \<longrightarrow> F j = []"
  obtain P1 F1 where first: "(if free_n (bds P ! (i + 1)) = 0 then pool_pull_upper A (i + 1) P else Some P) = Some P1"
    and P1: "wf A P1 F1 lo hi" "free_bytes F1 = free_bytes F" "same_outside (free_bytes F) (blocks P) (blocks P1)"
      "if ?none then P1 = P \<and> F1 = F else F1 (i + 1) \<noteq> []"
  proof (cases "F (i + 1) = []")
    case True
    then have n: "free_n (bds P ! (i + 1)) = 0" using wf_free_n [OF Suc.prems(1) i(1)] by simp
    have none: "?none \<longleftrightarrow> (\<forall>j. i + 1 < j \<and> j < 9 \<longrightarrow> F j = [])"
      using True by (metis Suc_eq_plus1 Suc_lessI less_Suc_eq less_trans)
    show ?thesis using Suc.hyps(1) [OF i(2) Suc.prems(1) i(1)] n that unfolding none by auto
  next
    case False
    then have n: "free_n (bds P ! (i + 1)) \<noteq> 0" using wf_free_n [OF Suc.prems(1) i(1)] by simp
    have "\<not> ?none" using False i(1) by auto
    then show ?thesis using that [of P F] n False Suc.prems(1) by simp
  qed
  show ?case
  proof (cases "F1 (i + 1)")
    case Nil
    then have "P1 = P" "F1 = F" ?none using P1(4) by (auto split: if_splits)
    moreover have "free_n (bds P1 ! (i + 1)) = 0" using wf_free_n [OF P1(1) i(1)] Nil by simp
    ultimately show ?thesis using pull_step [OF first i(1)] P1(1) by auto
  next
    case (Cons a zs)
    have "\<not> ?none" using P1(4) Cons i(1) by (auto split: if_splits)
    moreover obtain P' where P': "pool_add_free A i a 2 (upd_blocks (\<lambda>m. store_ptr A m (a + obj_bytes i) 0)
        (upd_blocks (\<lambda>m. store_ptr A m a (a + obj_bytes i)) (pop A (i + 1) P1))) = Some P'"
      "wf A P' (put (F1(i + 1 := zs)) i a 2) lo hi"
      "free_bytes (put (F1(i + 1 := zs)) i a 2) = free_bytes F1" "same_outside (free_bytes F1) (blocks P1) (blocks P')"
      using split_block_ok [OF P1(1) i(1) Cons] by blast
    moreover have "pool_pull_upper A i P = Some P'"
    proof -
      have "free_n (bds P1 ! (i + 1)) \<noteq> 0" using wf_free_n [OF P1(1) i(1)] Cons by simp
      then show ?thesis using pull_step [OF first i(1)] P'(1) pop_ok(1) [OF P1(1) i(1) Cons] by simp
    qed
    moreover have "same_outside (free_bytes F) (blocks P) (blocks P')"
      using same_outside_trans [OF P1(3) P'(4)] P1(2) by simp
    moreover have "put (F1(i + 1 := zs)) i a 2 i \<noteq> []" by (simp add: put_def)
    ultimately show ?thesis using P1(2) by auto
  qed
qed

section \<open>pool_try_shrink\<close>

lemma list_links:
  assumes "wf A P F lo hi" "i < 9" "F i = ys @ a # zs"
  shows "load_ptr A (blocks P) a = first zs" "a \<noteq> 0"
proof -
  have "seg (load_ptr A (blocks P)) (free_list (bds P ! i)) (ys @ a # zs) 0"
    using wf_bucket [OF assms(1,2)] assms(3) by (simp add: bucket_ok_def)
  then show "load_ptr A (blocks P) a = first zs" "a \<noteq> 0" by (auto simp: seg_append dest: seg_first)
qed

text \<open>Two neighbours leave their list and enter the next one as one block.\<close>

lemma merge_ok:
  assumes wf: "wf A P F lo hi" and i: "i + 1 < 9" and F: "F i = ys @ a # (a + obj_bytes i) # zs"
  defines "Q \<equiv> upd_bucket i (\<lambda>b. b\<lparr>free_n := free_n b - 2\<rparr>) (store_slot A i (slot_of ys) (first zs) P)"
  obtains P' F' where "pool_add_free A (i + 1) a 1 Q = Some P'" "wf A P' F' lo hi" "F' i = ys @ zs"
    "free_bytes F' = free_bytes F" "same_outside (free_bytes F) (blocks P) (blocks P')"
proof -
  let ?F = "F(i := ys @ zs)"
  have i9: "i < 9" using i by simp
  have ok: "abi_ok A" and lay: "layout F lo hi" using wf by (auto simp: wf_def)
  have F': "F i = ys @ [a, a + obj_bytes i] @ zs" using F by simp
  have pair: "bytes_of i (set [a, a + obj_bytes i]) = {a ..< a + 1 * obj_bytes (i + 1)}"
    by (auto simp: bytes_of_def obj_bytes_Suc)
  have in_pool: "lo \<le> a" "a + 1 * obj_bytes (i + 1) \<le> hi"
    using layout_in [OF lay i9, of a] layout_in [OF lay i9, of "a + obj_bytes i"] F by (auto simp: obj_bytes_Suc)
  have fr: "fresh ?F (i + 1) a 1 lo hi" using region_fresh [OF lay i9 F' pair in_pool] .
  have bytes: "free_bytes F = free_bytes ?F \<union> {a ..< a + 1 * obj_bytes (i + 1)}"
    using cut_bytes(1) [OF lay i9 F'] pair by simp
  have "Q = take_n i (length [a, a + obj_bytes i]) (store_slot A i (slot_of ys) (first zs) P)"
    by (simp add: Q_def take_n_def)
  note cut = cut_wf [OF wf i9 F' refl this]
  obtain P' where P': "pool_add_free A (i + 1) a (int 1) Q = Some P'" "wf A P' (put ?F (i + 1) a 1) lo hi"
    "same_outside (free_bytes ?F \<union> {a ..< a + 1 * obj_bytes (i + 1)}) (blocks Q) (blocks P')"
    using add_free_bytes [OF cut(1) i _ fr] by auto
  have "cells A (set ys) \<subseteq> free_bytes F"
    using cells_free_bytes [OF ok i9, of F] F by (auto simp: cells_def)
  then have "same_outside (free_bytes F) (blocks P) (blocks P')"
    using same_outside_trans [OF cut(2) P'(3) [folded bytes]] by (simp add: Un_absorb1)
  moreover have "free_bytes (put ?F (i + 1) a 1) = free_bytes F" using free_bytes_put [OF i] bytes by simp
  moreover have "put ?F (i + 1) a 1 i = ys @ zs" by simp
  ultimately show thesis using that P'(1,2) by simp
qed

lemma shrink_loop_ok:
  assumes "wf A P F lo hi" "i + 1 < 9" "F i = ys @ zs"
  shows "\<exists>P' F'. shrink_loop A i (first zs) (slot_of ys) P = Some P' \<and> wf A P' F' lo hi \<and>
    free_bytes F' = free_bytes F \<and> same_outside (free_bytes F) (blocks P) (blocks P')"
  using assms
proof (induction "length zs" arbitrary: P F ys zs rule: less_induct)
  case less
  show ?case
  proof (cases zs)
    case Nil
    then show ?thesis using less.prems by (subst shrink_loop.simps) auto
  next
    case (Cons a r)
    have i: "i < 9" using less.prems(2) by simp
    have F: "F i = ys @ a # r" using less.prems(3) Cons by simp
    note a = list_links [OF less.prems(1) i F]
    show ?thesis
    proof (cases "first r = (a + obj_bytes i) mod modulus A \<and> a AND (obj_bytes i - 1) = 0")
      case True
      have "a + obj_bytes i \<le> hi" "hi < modulus A"
        using less.prems(1) layout_in [of F lo hi i a] i F by (auto simp: wf_def)
      then have "first r = a + obj_bytes i" using True by simp
      then obtain r' where r: "r = (a + obj_bytes i) # r'" using obj_bytes_ge [of i] by (cases r) auto
      then have F': "F i = ys @ a # (a + obj_bytes i) # r'" using F by simp
      have b: "load_ptr A (blocks P) (a + obj_bytes i) = first r'"
        using list_links(1) [OF less.prems(1) i, of "ys @ [a]" "a + obj_bytes i" r'] F' by simp
      obtain P1 F1 where P1: "pool_add_free A (i + 1) a 1
          (upd_bucket i (\<lambda>b. b\<lparr>free_n := free_n b - 2\<rparr>) (store_slot A i (slot_of ys) (first r') P)) = Some P1"
        "wf A P1 F1 lo hi" "F1 i = ys @ r'" "free_bytes F1 = free_bytes F" "same_outside (free_bytes F) (blocks P) (blocks P1)"
        using merge_ok [OF less.prems(1,2) F'] by blast
      have "length r' < length zs" using Cons r by simp
      from less.hyps [OF this P1(2) less.prems(2) P1(3)] obtain P' F' where
        P': "shrink_loop A i (first r') (slot_of ys) P1 = Some P'" "wf A P' F' lo hi" "free_bytes F' = free_bytes F1"
          "same_outside (free_bytes F1) (blocks P1) (blocks P')" by blast
      have "shrink_loop A i (first zs) (slot_of ys) P = Some P'"
        using a b True P1(1) P'(1) Cons r by (subst shrink_loop.simps) (simp add: Let_def)
      then show ?thesis using P' P1(4) same_outside_trans [OF P1(5) P'(4)] by auto
    next
      case False
      have "length r < length zs" "F i = (ys @ [a]) @ r" using Cons F by simp_all
      from less.hyps [OF this(1) less.prems(1,2) this(2)]
      moreover have "shrink_loop A i (first zs) (slot_of ys) P = shrink_loop A i (first r) (slot_of (ys @ [a])) P"
      proof -
        have "slot_of (ys @ [a]) = Cell a" by (simp add: slot_of_def)
        then show ?thesis unfolding Cons first_simps
          by (subst shrink_loop.simps) (simp only: a Let_def False if_False)
      qed
      ultimately show ?thesis by simp
    qed
  qed
qed

lemma try_shrink_ok:
  assumes "wf A P F lo hi" "i < 9"
  shows "\<exists>P' F'. pool_try_shrink A i P = Some P' \<and> wf A P' F' lo hi \<and>
    free_bytes F' = free_bytes F \<and> same_outside (free_bytes F) (blocks P) (blocks P')"
  using assms
proof (induction "8 - i" arbitrary: i P F)
  case 0
  then show ?case by (subst pool_try_shrink.simps) (auto simp: BUDY_COUNT_def)
next
  case (Suc d)
  then have i: "i + 1 < 9" "d = 8 - (i + 1)" "\<not> BUDY_COUNT - 1 \<le> i" by (auto simp: BUDY_COUNT_def)
  have "seg (load_ptr A (blocks P)) (free_list (bds P ! i)) (F i) 0"
    using wf_bucket [OF Suc.prems] by (simp add: bucket_ok_def)
  then have "free_list (bds P ! i) = first (F i)" by (rule seg_first)
  then obtain P1 F1 where P1: "shrink_loop A i (free_list (bds P ! i)) Head P = Some P1" "wf A P1 F1 lo hi"
    "free_bytes F1 = free_bytes F" "same_outside (free_bytes F) (blocks P) (blocks P1)"
    using shrink_loop_ok [OF Suc.prems(1) i(1), of "[]" "F i"] by (auto simp: slot_of_def)
  from Suc.hyps(1) [OF i(2) P1(2) i(1)] obtain P' F' where P': "pool_try_shrink A (i + 1) P1 = Some P'"
    "wf A P' F' lo hi" "free_bytes F' = free_bytes F1" "same_outside (free_bytes F1) (blocks P1) (blocks P')" by blast
  have "pool_try_shrink A i P = Some P'" using i(3) P1(1) P'(1) by (subst pool_try_shrink.simps) simp
  then show ?case using P' P1(3) same_outside_trans [OF P1(4) P'(4)] by auto
qed

end
