(* ===== verification/Pool_Create.thy ===== *)
theory Pool_Create
  imports Pool_Moves
begin

text \<open>
  \<open>pool_create\<close>: the pages it threads and the well-formed pool it returns.
\<close>

section \<open>The chain of pages\<close>

lemma run_of_Suc: "run_of i blk (Suc n) = blk # run_of i (blk + obj_bytes i) n"
proof -
  have "[0..<Suc n] = 0 # map Suc [0..<n]" by (simp add: map_Suc_upt upt_conv_Cons)
  then show ?thesis unfolding run_of_def by simp
qed

lemma page_bytes: "obj_bytes 8 = 4096"
  by (simp add: obj_bytes_def OBJ_MIN_def)

text \<open>The number of pages that the loop threads from \<open>p\<close>: the page must end below the limit.\<close>

definition page_count :: "nat \<Rightarrow> nat \<Rightarrow> nat" where
  "page_count limit p = (limit - 1 - p) div 4096"

lemma page_count_step:
  "p + 4096 < limit \<Longrightarrow> page_count limit p = Suc (page_count limit (p + 4096))"
  "\<not> p + 4096 < limit \<Longrightarrow> page_count limit p = 0"
proof -
  assume "p + 4096 < limit"
  then have "limit - 1 - p = 4096 + (limit - 1 - (p + 4096))" by simp
  moreover have "(4096 + x) div 4096 = Suc (x div 4096)" for x :: nat
    using div_add_self1 [of 4096 x] by linarith
  ultimately show "page_count limit p = Suc (page_count limit (p + 4096))" unfolding page_count_def by metis
next
  assume "\<not> p + 4096 < limit"
  then have "limit - 1 - p < 4096" by linarith
  then show "page_count limit p = 0" unfolding page_count_def by (rule div_less)
qed

lemma create_pages_ok:
  assumes "abi_ok A" "limit \<le> modulus A" "0 < p"
  shows "\<exists>m'. create_pages A limit p cur n m =
      (if page_count limit p = 0 then cur else p + (page_count limit p - 1) * 4096, n + page_count limit p, m') \<and>
    seg (load_ptr A m') p (run_of 8 p (page_count limit p)) (p + page_count limit p * 4096) \<and>
    same_outside (cells A (set (run_of 8 p (page_count limit p)))) m m'"
  using assms(3)
proof (induction "page_count limit p" arbitrary: p cur n m)
  case 0
  then have "\<not> p + 4096 < limit" using page_count_step(1) by fastforce
  then show ?case using 0 by (subst create_pages.simps) (simp add: PAGE_SIZE_def)
next
  case (Suc k)
  have less: "p + 4096 < limit" using Suc.hyps(2) page_count_step(2) by fastforce
  then have k: "k = page_count limit (p + 4096)" using Suc.hyps(2) page_count_step(1) [OF less] by simp
  let ?m = "store_ptr A m p (p + 4096)"
  obtain m' where m': "create_pages A limit (p + 4096) p (n + 1) ?m =
      (if k = 0 then p else p + 4096 + (k - 1) * 4096, n + 1 + k, m')"
    "seg (load_ptr A m') (p + 4096) (run_of 8 (p + 4096) k) (p + 4096 + k * 4096)"
    "same_outside (cells A (set (run_of 8 (p + 4096) k))) ?m m'"
    using Suc.hyps(1) [OF k, of p "n + 1" ?m] unfolding k by auto
  have run: "run_of 8 p (Suc k) = p # run_of 8 (p + 4096) k" by (simp add: run_of_Suc page_bytes)
  have "{p ..< p + ptr_size A} \<inter> cells A (set (run_of 8 (p + 4096) k)) = {}"
  proof -
    have "p + 4096 \<le> a" if "a \<in> set (run_of 8 (p + 4096) k)" for a using run_of_inside(1) [OF that] .
    moreover have "ptr_size A \<le> 4096" using ptr_in_block [OF assms(1), of 8] page_bytes by simp
    ultimately show ?thesis unfolding cells_def by fastforce
  qed
  then have "load_ptr A m' p = load_ptr A ?m p" by (rule load_ptr_same [OF m'(3)])
  moreover have "load_ptr A ?m p = p + 4096" using less assms(2) by (intro ptrs.ld_st_same) simp
  ultimately have "seg (load_ptr A m') p (run_of 8 p (Suc k)) (p + Suc k * 4096)"
    using m'(2) Suc.prems unfolding run by (simp add: add.assoc)
  moreover have "same_outside (cells A (set (run_of 8 p (Suc k)))) m m'"
    by (rule same_outside_mono [OF same_outside_trans [OF same_outside_store_ptr m'(3)]])
      (auto simp: run cells_def)
  moreover have "create_pages A limit p cur n m = (p + k * 4096, n + Suc k, m')"
  proof -
    have "(if k = 0 then p else p + 4096 + (k - 1) * 4096) = p + k * 4096" by (cases k) simp_all
    then show ?thesis using m'(1) less by (subst create_pages.simps) (simp add: PAGE_SIZE_def)
  qed
  ultimately show ?case unfolding Suc.hyps(2) [symmetric] by auto
qed

lemma page_count_bound: "p < limit \<Longrightarrow> p + page_count limit p * 4096 < limit"
proof -
  assume "p < limit"
  moreover have "page_count limit p * 4096 \<le> limit - 1 - p"
    unfolding page_count_def by (rule div_times_less_eq_dividend)
  ultimately show ?thesis by linarith
qed

lemma page_count_reach: "limit \<le> p + page_count limit p * 4096 + 4096"
proof -
  have "limit - 1 - p < page_count limit p * 4096 + 4096"
    unfolding page_count_def using mod_less_divisor [of 4096 "limit - 1 - p"] div_mult_mod_eq [of "limit - 1 - p" 4096] by linarith
  then show ?thesis by linarith
qed

text \<open>The links after \<open>*cur = NULL\<close>.\<close>

lemma close_chain:
  assumes ok: "abi_ok A" and s: "seg (load_ptr A m) p (run_of 8 p k) b" and k: "0 < k"
  shows "seg (load_ptr A (store_ptr A m (p + (k - 1) * 4096) 0)) p (run_of 8 p k) 0"
proof -
  obtain j where j: "k = Suc j" using k gr0_conv_Suc by auto
  have run: "run_of 8 p k = run_of 8 p j @ [p + (k - 1) * 4096]" by (simp add: j run_of_def page_bytes)
  have "x + ptr_size A \<le> p + (k - 1) * 4096 \<or> p + (k - 1) * 4096 + ptr_size A \<le> x"
    if x: "x \<in> set (run_of 8 p j)" for x
  proof -
    have "x + obj_bytes 8 \<le> p + j * obj_bytes 8" using run_of_inside(2) [OF x] .
    then show ?thesis using ptr_in_block [OF ok, of 8] j by (simp add: page_bytes)
  qed
  then show ?thesis using s unfolding run by (intro ptrs.seg_redirect) (auto simp: modulus_def)
qed

section \<open>The new pool\<close>

definition pages :: "nat \<Rightarrow> nat \<Rightarrow> lists" where
  "pages start k = (\<lambda>i. if i = 8 then run_of 8 start k else [])"

lemma layout_pages:
  assumes "0 < start"
  shows "layout (pages start k) start (start + k * 4096)"
proof -
  have "layout (\<lambda>_. []) start (start + k * 4096)" using assms by (simp add: layout_def)
  moreover have "fresh (\<lambda>_. []) 8 start k start (start + k * 4096)"
    by (simp add: fresh_def free_bytes_def bytes_of_def page_bytes)
  ultimately have "layout (put (\<lambda>_. []) 8 start k) start (start + k * 4096)" by (intro layout_put) simp_all
  moreover have "put (\<lambda>_. []) 8 start k = pages start k" by (auto simp: put_def pages_def)
  ultimately show ?thesis by simp
qed

lemma free_bytes_pages: "free_bytes (pages start k) = {start ..< start + k * 4096}"
proof -
  have "free_bytes (pages start k) = bytes_of 8 (set (run_of 8 start k))"
    by (auto simp: free_bytes_def pages_def bytes_of_def split: if_splits)
  then show ?thesis by (simp add: run_of_bytes page_bytes)
qed

definition new_buckets :: "nat \<Rightarrow> nat \<Rightarrow> bucket list" where
  "new_buckets start k =
     (map (\<lambda>i. \<lparr>obj_size = of_nat (obj_bytes i), free_n = 0, free_list = 0\<rparr>) [0..<9])
       [8 := \<lparr>obj_size = of_nat (obj_bytes 8), free_n = of_nat k, free_list = start\<rparr>]"

lemma wf_new_pool:
  assumes "abi_ok A" "0 < start" "0 < k" "start + k * 4096 < modulus A" "k * 4096 \<le> 2 ^ 35"
    and "seg (load_ptr A m) start (run_of 8 start k) 0"
  shows "wf A \<lparr>bds = new_buckets start k, blocks = m\<rparr> (pages start k) start (start + k * 4096)"
proof -
  have "bucket_ok A m (new_buckets start k ! i) i (pages start k i)" if "i < 9" for i
    using assms(6) that by (auto simp: new_buckets_def bucket_ok_def pages_def nth_list_update)
  then show ?thesis using assms layout_pages [OF assms(2)] by (simp add: wf_def new_buckets_def)
qed

definition pool_start :: "abi \<Rightarrow> nat \<Rightarrow> nat" where
  "pool_start A addr = page_round A (addr + bucket_size A * BUDY_COUNT)"

lemma pool_start_above:
  assumes "addr + bucket_size A * BUDY_COUNT + 4095 < modulus A"
  shows "addr + bucket_size A * BUDY_COUNT \<le> pool_start A addr"
proof -
  let ?x = "addr + bucket_size A * BUDY_COUNT"
  have "?x \<le> (?x + 4095) div 4096 * 4096" by simp
  moreover have "(?x + PAGE_SIZE - 1) mod modulus A = ?x + 4095" using assms by (simp add: PAGE_SIZE_def)
  ultimately show ?thesis by (simp add: pool_start_def page_round_def PAGE_SIZE_def)
qed

lemma pool_start_near:
  assumes "addr + bucket_size A * BUDY_COUNT + 4095 < modulus A"
  shows "4096 dvd pool_start A addr" "pool_start A addr < addr + bucket_size A * BUDY_COUNT + 4096"
proof -
  let ?x = "addr + bucket_size A * BUDY_COUNT"
  have "(?x + PAGE_SIZE - 1) mod modulus A = ?x + 4095" using assms by (simp add: PAGE_SIZE_def)
  then have s: "pool_start A addr = (?x + 4095) div 4096 * 4096"
    by (simp add: pool_start_def page_round_def PAGE_SIZE_def)
  then show "4096 dvd pool_start A addr" by simp
  have "(?x + 4095) div 4096 * 4096 \<le> ?x + 4095" by (rule div_times_less_eq_dividend)
  then show "pool_start A addr < ?x + 4096" unfolding s by linarith
qed

lemma create_pool:
  assumes ok: "abi_ok A" and sz: "0 < addr" "4096 < sz" "addr + sz < modulus A" "sz \<le> 2 ^ 35"
    and hdr: "addr + bucket_size A * BUDY_COUNT + 4095 < modulus A"
    and room: "pool_start A addr + 4096 < addr + sz"
  defines "k \<equiv> page_count (addr + sz) (pool_start A addr)"
  shows "\<exists>P. pool_create A addr (int sz) m = Inr (Some P) \<and>
    wf A P (pages (pool_start A addr) k) (pool_start A addr) (pool_start A addr + k * 4096) \<and>
    same_outside {pool_start A addr ..< pool_start A addr + k * 4096} m (blocks P)"
proof -
  let ?s = "pool_start A addr" and ?hi = "pool_start A addr + k * 4096"
  have pos: "0 < ?s" using pool_start_above [OF hdr] sz(1) by linarith
  have k: "0 < k" unfolding k_def using page_count_step(1) [OF room] by simp
  have hi: "?hi < addr + sz" using page_count_bound [of ?s "addr + sz"] room by (simp add: k_def)
  have lim: "addr + sz \<le> modulus A" using sz(3) by simp
  obtain m' where m': "create_pages A (addr + sz) ?s 0 0 m = (?s + (k - 1) * 4096, k, m')"
    "seg (load_ptr A m') ?s (run_of 8 ?s k) ?hi" "same_outside (cells A (set (run_of 8 ?s k))) m m'"
    using create_pages_ok [OF ok lim pos, of 0 0 m] k unfolding k_def [symmetric] by auto
  let ?m = "store_ptr A m' (?s + (k - 1) * 4096) 0"
  let ?P = "\<lparr>bds = new_buckets ?s k, blocks = ?m\<rparr>"
  have "nat (int addr + int sz) = addr + sz" by (simp add: nat_add_distrib)
  then have "pool_create A addr (int sz) m = Inr (Some ?P)"
    using m'(1) k sz(2) unfolding pool_create_def pool_start_def [symmetric]
    by (simp add: PAGE_SIZE_def BUDY_COUNT_def new_buckets_def Let_def)
  moreover have "k * 4096 \<le> 2 ^ 35" using hi pool_start_above [OF hdr] sz(4) by linarith
  then have "wf A ?P (pages ?s k) ?s ?hi"
    using close_chain [OF ok m'(2) k] pos k hi sz(3) ok by (intro wf_new_pool) auto
  moreover have "same_outside {?s ..< ?hi} m ?m"
  proof (rule same_outside_mono [OF same_outside_trans [OF m'(3) same_outside_store_ptr]])
    have "?s + (k - 1) * 4096 \<in> set (run_of 8 ?s k)" using k by (auto simp: run_of_iff page_bytes intro: exI [of _ "k - 1"])
    then have last: "{?s + (k - 1) * 4096 ..< ?s + (k - 1) * 4096 + ptr_size A} \<subseteq> cells A (set (run_of 8 ?s k))"
      unfolding cells_def by blast
    have all: "cells A (set (run_of 8 ?s k)) \<subseteq> {?s ..< ?hi}"
      using cells_bytes [OF ok, of "set (run_of 8 ?s k)" 8] unfolding run_of_bytes page_bytes .
    show "cells A (set (run_of 8 ?s k)) \<union> {?s + (k - 1) * 4096 ..< ?s + (k - 1) * 4096 + ptr_size A} \<subseteq> {?s ..< ?hi}"
      by (rule Un_least [OF all subset_trans [OF last all]])
  qed
  ultimately show ?thesis by auto
qed

end
