(* ===== verification/Pool_Alloc.thy ===== *)
theory Pool_Alloc
  imports Pool_Create
begin

text \<open>
  \<open>pool_malloc\<close> and \<open>pool_free\<close>: the block that a request gets, its header, and its return.
\<close>

section \<open>The bucket of a small request\<close>

lemma log_loop_value: "2 ^ j \<le> s \<Longrightarrow> s < 2 ^ (j + 1) \<Longrightarrow> log_loop s k = k + j"
proof (induction j arbitrary: s k)
  case 0
  then have "s div 2 = 0" by simp
  then show ?case by (subst log_loop.simps) simp
next
  case (Suc j)
  then have "2 ^ j \<le> s div 2" "s div 2 < 2 ^ (j + 1)" by auto
  moreover have "s div 2 \<noteq> 0" using calculation(1) one_le_power [of "2 :: nat" j] by linarith
  ultimately show ?case using Suc.IH [of "s div 2" "k + 1"] by (subst log_loop.simps) simp
qed

text \<open>The smallest bucket whose blocks hold \<open>s\<close> bytes.\<close>

definition best_bucket :: "nat \<Rightarrow> nat \<Rightarrow> bool" where
  "best_bucket s i \<longleftrightarrow> i < 9 \<and> s \<le> obj_bytes i \<and> (\<forall>j < i. obj_bytes j < s)"

lemma obj_bytes_mono: "j \<le> i \<Longrightarrow> obj_bytes j \<le> obj_bytes i"
  by (simp add: obj_bytes_def power_increasing)

lemma best_bucketI:
  assumes "i < 9" "s \<le> obj_bytes i" "0 < i \<Longrightarrow> obj_bytes (i - 1) < s"
  shows "best_bucket s i"
proof -
  have "obj_bytes j < s" if "j < i" for j
    using assms(3) obj_bytes_mono [of j "i - 1"] that by linarith
  then show ?thesis using assms by (simp add: best_bucket_def)
qed

lemma small_index_best:
  assumes "16 \<le> s" "s \<le> 4096"
  shows "\<exists>i. small_index s = int i \<and> best_bucket s i"
proof -
  obtain j where j: "2 ^ j \<le> s" "s < 2 ^ (j + 1)"
    using ex_power_ivl1 [of 2 s] assms(1) by auto
  have lg: "log_loop s 0 = j" using log_loop_value [OF j, of 0] by simp
  have j4: "4 \<le> j"
  proof (rule ccontr)
    assume "\<not> 4 \<le> j"
    then have "(2 :: nat) ^ (j + 1) \<le> 2 ^ 4" by (intro power_increasing) auto
    then show False using j assms(1) by simp
  qed
  have j12: "j \<le> 12"
  proof (rule ccontr)
    assume "\<not> j \<le> 12"
    then have "(2 :: nat) ^ 13 \<le> 2 ^ j" by (intro power_increasing) auto
    then show False using j assms(2) by simp
  qed
  have ob: "obj_bytes (j - 4) = 2 ^ j"
  proof -
    obtain d where "j = d + 4" using j4 by (metis le_Suc_ex add.commute)
    then show ?thesis by (simp add: obj_bytes_def OBJ_MIN_def power_add)
  qed
  show ?thesis
  proof (cases "s = 2 ^ j")
    case True
    have "(2 ^ j - 1 + s) div 2 ^ j * 2 ^ j = s"
    proof -
      have "(2 ^ j - 1 + s) div 2 ^ j = 1" using True by (intro div_nat_eqI) simp_all
      then show ?thesis using True by simp
    qed
    then have "small_index s = int (j - 4)" using j4 by (simp add: small_index_def lg Let_def of_nat_diff)
    moreover have "best_bucket s (j - 4)"
    proof (rule best_bucketI)
      show "obj_bytes (j - 4 - 1) < s" if "0 < j - 4"
      proof -
        have "obj_bytes (j - 4) = 2 * obj_bytes (j - 4 - 1)" using that by (metis Suc_diff_1 obj_bytes_Suc)
        then show ?thesis using ob True obj_bytes_ge [of "j - 4 - 1"] by linarith
      qed
    qed (use j12 ob True in auto)
    ultimately show ?thesis by blast
  next
    case False
    then have less: "2 ^ j < s" using j by simp
    have "j \<noteq> 12" using less assms(2) by auto
    have "(2 ^ j - 1 + s) div 2 ^ j = 2"
    proof (rule div_nat_eqI)
      have "(1 :: nat) \<le> 2 ^ j" by simp
      then show "2 ^ j * 2 \<le> 2 ^ j - 1 + s" using less by linarith
      show "2 ^ j - 1 + s < 2 ^ j * Suc 2" using j(2) \<open>1 \<le> 2 ^ j\<close> by simp
    qed
    then have "small_index s = int (j - 3)"
      using j j4 by (simp add: small_index_def lg Let_def of_nat_diff)
    moreover have up: "obj_bytes (j - 3) = 2 * 2 ^ j"
    proof -
      have "j - 3 = Suc (j - 4)" using j4 by simp
      then show ?thesis using obj_bytes_Suc [of "j - 4"] ob by simp
    qed
    moreover have "best_bucket s (j - 3)"
    proof (rule best_bucketI)
      show "obj_bytes (j - 3 - 1) < s" using ob less by simp
    qed (use j12 \<open>j \<noteq> 12\<close> j up in auto)
    ultimately show ?thesis by blast
  qed
qed

section \<open>Headers\<close>

definition header :: "mem \<Rightarrow> nat \<Rightarrow> nat \<Rightarrow> nat \<Rightarrow> bool" where
  "header m bh i n \<longleftrightarrow> load_le m bh 2 = i \<and> load_le m (bh + 2) 2 = n \<and> load_le m (bh + 4) 4 = OBJ_MAGIC"

lemma header_inside:
  assumes "0 < n"
  shows "{bh ..< bh + 8} \<subseteq> {bh ..< bh + n * obj_bytes i}"
proof -
  have "1 * obj_bytes i \<le> n * obj_bytes i" using assms by (intro mult_le_mono1) simp
  then have "8 \<le> n * obj_bytes i" using obj_bytes_ge [of i] by linarith
  then show ?thesis by auto
qed

lemma header_written:
  assumes "i < 65536"
  shows "header (write_header bh i n m) bh i (n mod 65536)"
  using assms by (simp add: header_def write_header_def mem_simps OBJ_MAGIC_def)

lemma write_header_frame: "same_outside {bh ..< bh + 8} m (write_header bh i n m)"
  unfolding same_outside_def write_header_def by (auto intro!: store_le_outside [THEN trans])

lemma header_same: "same_outside S m m' \<Longrightarrow> {bh ..< bh + 8} \<inter> S = {} \<Longrightarrow> header m bh i n \<Longrightarrow> header m' bh i n"
proof -
  assume s: "same_outside S m m'" "{bh ..< bh + 8} \<inter> S = {}" "header m bh i n"
  have "m' x = m x" if "bh \<le> x" "x < bh + 8" for x using s(1,2) that by (auto simp: same_outside_def)
  then have "load_le m' bh 2 = load_le m bh 2" "load_le m' (bh + 2) 2 = load_le m (bh + 2) 2"
    "load_le m' (bh + 4) 4 = load_le m (bh + 4) 4" by (auto intro!: load_le_cong)
  then show ?thesis using s(3) by (simp add: header_def)
qed

section \<open>Handing a block out\<close>

text \<open>
  The pool \<open>P'\<close> has handed out \<open>n\<close> blocks of bucket \<open>i\<close> at \<open>bh\<close>: their bytes were free and are
  not any more, nothing outside the free bytes has changed, and the header says what they are.
\<close>

definition handed_out ::
  "abi \<Rightarrow> pool \<Rightarrow> lists \<Rightarrow> nat \<Rightarrow> nat \<Rightarrow> nat \<Rightarrow> nat \<Rightarrow> nat \<Rightarrow> pool \<Rightarrow> lists \<Rightarrow> bool" where
  "handed_out A P F lo hi bh i n P' F' \<longleftrightarrow> wf A P' F' lo hi \<and> fresh F' i bh n lo hi \<and>
     free_bytes F = free_bytes F' \<union> {bh ..< bh + n * obj_bytes i} \<and>
     header (blocks P') bh i (n mod 65536) \<and> same_outside (free_bytes F) (blocks P) (blocks P')"

lemma hand_out_run:
  assumes wf: "wf A P F lo hi" and i: "i < 9" and n: "0 < n" and F: "F i = ys @ run_of i bh n @ zs"
    and Q: "Q = take_n i n (store_slot A i (slot_of ys) (first zs) P)"
  shows "handed_out A P F lo hi bh i n (upd_blocks (write_header bh i n) Q) (F(i := ys @ zs))"
proof -
  have ok: "abi_ok A" and lay: "layout F lo hi" using wf by (auto simp: wf_def)
  have "Q = take_n i (length (run_of i bh n)) (store_slot A i (slot_of ys) (first zs) P)" using Q by simp
  note cut = cut_wf [OF wf i F refl this]
  have first: "bh \<in> set (F i)" and last: "bh + (n - 1) * obj_bytes i \<in> set (F i)"
    using F n by (auto simp: run_of_iff intro: exI [of _ 0] exI [of _ "n - 1"])
  have sum: "(n - 1) * obj_bytes i + obj_bytes i = n * obj_bytes i" using n by (cases n) simp_all
  have in_pool: "lo \<le> bh" "bh + n * obj_bytes i \<le> hi"
    using layout_in [OF lay i first] layout_in [OF lay i last] sum by linarith+
  have fr: "fresh (F(i := ys @ zs)) i bh n lo hi" by (rule region_fresh [OF lay i F run_of_bytes in_pool])
  have bytes: "free_bytes F = free_bytes (F(i := ys @ zs)) \<union> {bh ..< bh + n * obj_bytes i}"
    using cut_bytes(1) [OF lay i F] unfolding run_of_bytes .
  note hdr = header_inside [OF n, of bh i]
  have 1: "wf A (upd_blocks (write_header bh i n) Q) (F(i := ys @ zs)) lo hi"
    by (rule wf_write [OF cut(1) write_header_frame]) (use fr hdr in \<open>unfold fresh_def, blast\<close>)
  have "cells A (set ys) \<subseteq> free_bytes F" using cells_free_bytes [OF ok i, of F] F by (auto simp: cells_def)
  then have "cells A (set ys) \<union> {bh ..< bh + 8} \<subseteq> free_bytes F" using hdr bytes by blast
  from same_outside_mono [OF same_outside_trans [OF cut(2) write_header_frame] this]
  have 2: "same_outside (free_bytes F) (blocks P) (blocks (upd_blocks (write_header bh i n) Q))"
    by (simp add: Q take_n_def)
  show ?thesis using 1 2 fr bytes header_written [of i bh n "blocks Q"] i by (simp add: handed_out_def)
qed

lemma rounded:
  assumes "sz + 4110 < 4294967296" "abi_ok A"
  shows "((sz + HEADER_SIZE) mod modulus A + MEM_ALIGN - 1) mod modulus A div MEM_ALIGN * MEM_ALIGN = (sz + 15) div 8 * 8"
proof -
  have "4294967296 \<le> modulus A" using assms(2) by (auto simp: abi_ok_def modulus_def)
  then show ?thesis using assms(1) by (simp add: HEADER_SIZE_def MEM_ALIGN_def)
qed

lemma top_size: "wf A P F lo hi \<Longrightarrow> unat (obj_size (bds P ! 8)) = 4096 \<and> obj_size (bds P ! 8) = 4096"
  using wf_bucket [of A P F lo hi 8] by (simp add: bucket_ok_def page_bytes)

lemma best_rounded:
  assumes "best_bucket ((sz + 15) div 8 * 8) i"
  shows "best_bucket (sz + 8) i"
proof -
  have "sz + 8 \<le> (sz + 15) div 8 * 8" by presburger
  then have "sz + 8 \<le> obj_bytes i" using assms unfolding best_bucket_def by linarith
  moreover have "obj_bytes j < sz + 8" if "j < i" for j
  proof -
    have "obj_bytes j < (sz + 15) div 8 * 8" using assms that by (simp add: best_bucket_def)
    moreover have "obj_bytes j = 8 * (2 * 2 ^ j)" by (simp add: obj_bytes_def OBJ_MIN_def)
    ultimately show ?thesis by presburger
  qed
  ultimately show ?thesis using assms by (simp add: best_bucket_def)
qed

lemma malloc_small_eq:
  assumes "sz \<noteq> 0" "((sz + HEADER_SIZE) mod modulus A + MEM_ALIGN - 1) mod modulus A div MEM_ALIGN * MEM_ALIGN = s"
    "unat (obj_size (bds P ! (BUDY_COUNT - 1))) = page" "s \<le> page" "small_index s = int i"
  shows "pool_malloc A sz P =
    (case if free_n (bds P ! i) = 0 then pool_pull_upper A i P else Some P of
       None \<Rightarrow> None
     | Some P \<Rightarrow>
         if free_n (bds P ! i) = 0 then Some (Inr (0, P))
         else Some (Inr (free_list (bds P ! i) + 8, upd_blocks (write_header (free_list (bds P ! i)) i 1) (pop A i P))))"
proof -
  have "\<not> page < s" "\<not> int i < 0" using assms(4) by simp_all
  then show ?thesis using assms(1)
    unfolding pool_malloc_def Let_def assms(2,3,5) pop_def nat_int
    by (simp only: if_False if_True HEADER_SIZE_def)
qed

lemma malloc_small:
  assumes wf: "wf A P F lo hi" and sz: "0 < sz" "sz \<le> 4088"
  shows "\<exists>i. best_bucket (sz + 8) i \<and>
    (if \<forall>j. i \<le> j \<and> j < 9 \<longrightarrow> F j = [] then pool_malloc A sz P = Some (Inr (0, P))
     else \<exists>bh P' F'. pool_malloc A sz P = Some (Inr (bh + 8, P')) \<and> handed_out A P F lo hi bh i 1 P' F')"
proof -
  let ?s = "(sz + 15) div 8 * 8"
  have ok: "abi_ok A" using wf by (simp add: wf_def)
  have "16 \<le> ?s" "?s \<le> 4096" using sz by presburger+
  then obtain i where i: "small_index ?s = int i" "best_bucket ?s i" using small_index_best by blast
  have best: "best_bucket (sz + 8) i" using best_rounded [OF i(2)] .
  have i9: "i < 9" using i(2) by (simp add: best_bucket_def)
  let ?pulled = "if free_n (bds P ! i) = 0 then pool_pull_upper A i P else Some P"
  have m: "pool_malloc A sz P =
    (case ?pulled of None \<Rightarrow> None
     | Some P \<Rightarrow>
         if free_n (bds P ! i) = 0 then Some (Inr (0, P))
         else Some (Inr (free_list (bds P ! i) + 8, upd_blocks (write_header (free_list (bds P ! i)) i 1) (pop A i P))))"
    using sz top_size [OF wf]
    by (intro malloc_small_eq [OF _ rounded [OF _ ok] _ \<open>?s \<le> 4096\<close> i(1)]) (simp_all add: BUDY_COUNT_def)
  obtain P1 F1 where P1: "?pulled = Some P1" "wf A P1 F1 lo hi" "free_bytes F1 = free_bytes F"
    "same_outside (free_bytes F) (blocks P) (blocks P1)"
    "if \<forall>j. i \<le> j \<and> j < 9 \<longrightarrow> F j = [] then P1 = P \<and> F1 i = [] else F1 i \<noteq> []"
  proof (cases "F i = []")
    case True
    have none: "(\<forall>j. i \<le> j \<and> j < 9 \<longrightarrow> F j = []) \<longleftrightarrow> (\<forall>j. i < j \<and> j < 9 \<longrightarrow> F j = [])"
      using True by (metis le_neq_implies_less less_imp_le_nat)
    obtain P' F' where "pool_pull_upper A i P = Some P'" "wf A P' F' lo hi" "free_bytes F' = free_bytes F"
      "same_outside (free_bytes F) (blocks P) (blocks P')"
      "if \<forall>j. i < j \<and> j < 9 \<longrightarrow> F j = [] then P' = P \<and> F' = F else F' i \<noteq> []"
      using pull_upper_ok [OF wf i9] by blast
    then show ?thesis using wf_free_n(2) [OF wf i9] True
      by (intro that [of P' F'], unfold none) (simp_all split: if_splits)
  next
    case False
    then show ?thesis using that [of P F] wf_free_n(2) [OF wf i9] wf i9 by auto
  qed
  show ?thesis
  proof (cases "F1 i")
    case Nil
    then have "P1 = P" "\<forall>j. i \<le> j \<and> j < 9 \<longrightarrow> F j = []" using P1(5) by (auto split: if_splits)
    moreover have "free_n (bds P1 ! i) = 0" using wf_free_n(2) [OF P1(2) i9] Nil by simp
    ultimately show ?thesis using m P1(1) best by (intro exI [of _ i]) simp
  next
    case (Cons bh zs)
    have some: "\<not> (\<forall>j. i \<le> j \<and> j < 9 \<longrightarrow> F j = [])" using P1(5) Cons by (auto split: if_splits)
    note p = pop_ok [OF P1(2) i9 Cons]
    have "free_n (bds P1 ! i) \<noteq> 0" using wf_free_n(2) [OF P1(2) i9] Cons by simp
    then have r: "pool_malloc A sz P = Some (Inr (bh + 8, upd_blocks (write_header bh i 1) (pop A i P1)))"
      using m P1(1) p(1) by simp
    have "load_ptr A (blocks P1) bh = first zs" using list_links(1) [OF P1(2) i9, of "[]"] Cons by simp
    then have "pop A i P1 = take_n i 1 (store_slot A i (slot_of []) (first zs) P1)"
      by (simp add: pop_def p(1) take_n_def slot_of_def store_slot_def)
    from hand_out_run [OF P1(2) i9 zero_less_one _ this]
    have "handed_out A P1 F1 lo hi bh i 1 (upd_blocks (write_header bh i 1) (pop A i P1)) (F1(i := [] @ zs))"
      using Cons by (simp add: run_of_Suc)
    then have "handed_out A P F lo hi bh i 1 (upd_blocks (write_header bh i 1) (pop A i P1)) (F1(i := [] @ zs))"
      using P1(3) same_outside_trans [OF P1(4)] by (fastforce simp: handed_out_def)
    then show ?thesis using best some r by (intro exI [of _ i]) auto
  qed
qed

end
