(* ===== verification/Pool_Large.thy ===== *)
theory Pool_Large
  imports Pool_Alloc
begin

text \<open>
  Requests of more than a page: \<open>pool_alloc_continues\<close> takes the first pages that are each followed
  by the next free page.
\<close>

section \<open>The scan\<close>

text \<open>From \<open>b\<close>, pages at \<open>n + 1\<close> consecutive addresses are free.\<close>

definition pages_from :: "lists \<Rightarrow> nat \<Rightarrow> nat \<Rightarrow> bool" where
  "pages_from F n b \<longleftrightarrow> (\<forall>k \<le> n. b + k * 4096 \<in> set (F 8))"

lemma next_page:
  assumes "layout F lo hi" "F 8 = us @ a # zs" "a + 4096 \<in> set (F 8)"
  shows "first zs = a + 4096"
proof -
  have "sorted_wrt (<) (F 8)" using assms(1) by (simp add: layout_def)
  then have s: "sorted_wrt (<) (us @ a # zs)" unfolding assms(2) .
  then have "a + 4096 \<in> set zs" using assms(2,3) by (auto simp: sorted_wrt_append)
  then obtain z r where z: "zs = z # r" by (cases zs) auto
  then have "a < z" "z \<le> a + 4096" using s \<open>a + 4096 \<in> set zs\<close> by (auto simp: sorted_wrt_append)
  moreover have "apart 8 a 8 z" using layout_apart [OF assms(1), of 8 8 a z] assms(2) z \<open>a < z\<close> by simp
  ultimately show ?thesis using z by (simp add: apart_def page_bytes)
qed

text \<open>
  The state of the scan: the list is \<open>ys @ run @ zs\<close>, the pages of \<open>run\<close> are consecutive and are
  followed by the first page of \<open>zs\<close>, and no long enough run begins in \<open>ys\<close>.
\<close>

definition scan_inv :: "lists \<Rightarrow> nat \<Rightarrow> nat list \<Rightarrow> nat list \<Rightarrow> nat list \<Rightarrow> bool" where
  "scan_inv F n ys run zs \<longleftrightarrow> F 8 = ys @ run @ zs \<and> run = run_of 8 (first (run @ zs)) (length run) \<and>
     (run \<noteq> [] \<longrightarrow> first zs = first run + length run * 4096 \<and> zs \<noteq> []) \<and> length run \<le> n \<and>
     (\<forall>b. pages_from F n b \<longrightarrow> b \<in> set (run @ zs))"

lemma run_of_snoc: "run_of i b (Suc n) = run_of i b n @ [b + n * obj_bytes i]"
  by (simp add: run_of_def)

lemma scan_inv_extend:
  assumes "scan_inv F n ys run (a # zs)" "first zs = a + 4096" "length run < n" "zs \<noteq> []"
  shows "scan_inv F n ys (run @ [a]) zs"
proof (cases "run = []")
  case True
  then show ?thesis using assms by (simp add: scan_inv_def run_of_def)
next
  case False
  let ?b = "first run"
  have run: "run = run_of 8 ?b (length run)" and a: "a = ?b + length run * 4096"
    using assms(1) False by (auto simp: scan_inv_def first_append)
  have "run @ [a] = run_of 8 ?b (length (run @ [a]))" using run a by (simp add: run_of_snoc page_bytes)
  moreover have "first zs = first (run @ [a]) + length (run @ [a]) * 4096"
    using assms(2) a False by (simp add: first_append)
  moreover have f: "first ((run @ [a]) @ zs) = ?b" "first (run @ [a]) = ?b" using False by (simp_all add: first_append)
  ultimately have "run @ [a] = run_of 8 (first ((run @ [a]) @ zs)) (length (run @ [a]))"
    "first zs = first (run @ [a]) + length (run @ [a]) * 4096" by (simp_all only: f)
  moreover have "F 8 = ys @ (run @ [a]) @ zs" "\<forall>b. pages_from F n b \<longrightarrow> b \<in> set ((run @ [a]) @ zs)"
    using assms(1) by (simp_all add: scan_inv_def)
  moreover have "length (run @ [a]) \<le> n" using assms(3) by simp
  ultimately show ?thesis using assms(4) unfolding scan_inv_def by blast
qed

lemma scan_inv_restart:
  assumes lay: "layout F lo hi" and inv: "scan_inv F n ys run (a # zs)"
    and gap: "first zs \<noteq> a + 4096" and short: "length run < n"
  shows "scan_inv F n (ys @ run @ [a]) [] zs"
proof -
  have F: "F 8 = (ys @ run) @ a # zs" using inv by (simp add: scan_inv_def)
  have no: "a + 4096 \<notin> set (F 8)" using next_page [OF lay F] gap by blast
  have "b \<in> set zs" if b: "pages_from F n b" for b
  proof (rule ccontr)
    assume "b \<notin> set zs"
    moreover have "b \<in> set (run @ a # zs)" using inv b by (simp add: scan_inv_def)
    ultimately have "b \<in> set (run @ [a])" by simp
    then obtain j where j: "b + j * 4096 = a" "j < n"
    proof (cases "run = []")
      case True
      then show thesis using \<open>b \<in> set (run @ [a])\<close> short that [of 0] by simp
    next
      case False
      then have run: "run = run_of 8 (first run) (length run)" and a: "a = first run + length run * 4096"
        using inv by (auto simp: scan_inv_def first_append)
      then have "run @ [a] = run_of 8 (first run) (Suc (length run))" by (simp add: run_of_snoc page_bytes)
      then obtain k where k: "k < Suc (length run)" "b = first run + k * 4096"
        using \<open>b \<in> set (run @ [a])\<close> by (auto simp: run_of_iff page_bytes)
      then have "b + (length run - k) * 4096 = a" using a by (simp add: algebra_simps flip: add_mult_distrib2)
      then show thesis using that short by auto
    qed
    then have "j + 1 \<le> n" by simp
    then have "b + (j + 1) * 4096 \<in> set (F 8)" using b unfolding pages_from_def by blast
    moreover have "b + (j + 1) * 4096 = a + 4096" using j(1) by simp
    ultimately show False using no by metis
  qed
  then show ?thesis using F by (simp add: scan_inv_def)
qed

lemma alloc_scan_ok:
  assumes wf: "wf A P F lo hi" and inv: "scan_inv F n ys run zs"
  shows "\<exists>ys' run' zs'. alloc_scan A (blocks P) 4096 n (first zs) (slot_of ys) (first (run @ zs)) (n - length run) =
      Some (first zs', slot_of ys', first (run' @ zs'), n - length run') \<and>
    scan_inv F n ys' run' zs' \<and> (length run' = n \<or> zs' = [])"
  using inv
proof (induction zs arbitrary: ys run)
  case Nil
  then show ?case
    by (subst alloc_scan.simps) (intro exI [of _ ys] exI [of _ run] exI [of _ "[]"], simp)
next
  case (Cons a zs)
  have lay: "layout F lo hi" using wf by (simp add: wf_def)
  have F: "F 8 = (ys @ run) @ a # zs" using Cons.prems by (simp add: scan_inv_def)
  note a = list_links [OF wf _ F, simplified]
  have len: "length run \<le> n" using Cons.prems by (simp add: scan_inv_def)
  show ?case
  proof (cases "length run = n")
    case True
    then show ?thesis using Cons.prems
      by (subst alloc_scan.simps) (intro exI [of _ ys] exI [of _ run] exI [of _ "a # zs"], simp)
  next
    case False
    then have short: "length run < n" using len by simp
    have "a + 4096 \<le> hi" "hi < modulus A"
      using wf layout_in [OF lay, of 8 a] F by (auto simp: wf_def page_bytes)
    then have m: "(a + 4096) mod modulus A = a + 4096" by simp
    show ?thesis
    proof (cases "first zs = a + 4096")
      case True
      then have ne: "zs \<noteq> []" by auto
      have "alloc_scan A (blocks P) 4096 n (first (a # zs)) (slot_of ys) (first (run @ a # zs)) (n - length run) =
        alloc_scan A (blocks P) 4096 n (first zs) (slot_of ys) (first ((run @ [a]) @ zs)) (n - length (run @ [a]))"
        using a True m short by (subst alloc_scan.simps) simp
      then show ?thesis using Cons.IH [OF scan_inv_extend [OF Cons.prems True short ne]] by simp
    next
      case False
      have "slot_of (ys @ run @ [a]) = Cell a" by (simp add: slot_of_def)
      then have "alloc_scan A (blocks P) 4096 n (first (a # zs)) (slot_of ys) (first (run @ a # zs)) (n - length run) =
        alloc_scan A (blocks P) 4096 n (first zs) (slot_of (ys @ run @ [a])) (first ([] @ zs)) (n - length ([] :: nat list))"
        using a False m short by (subst alloc_scan.simps) simp
      then show ?thesis using Cons.IH [OF scan_inv_restart [OF lay Cons.prems False short]] by simp
    qed
  qed
qed

section \<open>pool_malloc of more than a page\<close>

lemma alloc_continues_ok:
  assumes wf: "wf A P F lo hi" and n: "0 < n"
  shows "if \<exists>b. pages_from F n b
    then \<exists>bh ys zs. pool_alloc_continues A 8 n P = Some (bh, take_n 8 n (store_slot A 8 (slot_of ys) (first zs) P)) \<and>
      F 8 = ys @ run_of 8 bh n @ zs \<and> pages_from F n bh
    else pool_alloc_continues A 8 n P = Some (0, P)"
proof -
  have "seg (load_ptr A (blocks P)) (free_list (bds P ! 8)) (F 8) 0"
    using wf_bucket [OF wf, of 8] by (simp add: bucket_ok_def)
  then have head: "free_list (bds P ! 8) = first (F 8)" by (rule seg_first)
  have "scan_inv F n [] [] (F 8)" by (auto simp: scan_inv_def pages_from_def)
  from alloc_scan_ok [OF wf this] obtain ys run zs where
    r: "alloc_scan A (blocks P) 4096 n (first (F 8)) Head (first (F 8)) n = Some (first zs, slot_of ys, first (run @ zs), n - length run)"
    and inv: "scan_inv F n ys run zs" and stop: "length run = n \<or> zs = []"
    by (auto simp: slot_of_def)
  show ?thesis
  proof (cases "length run = n")
    case True
    then have ne: "run \<noteq> []" using n by auto
    then have run: "run = run_of 8 (first run) n" and z: "first zs = first run + n * 4096" "zs \<noteq> []"
      and F: "F 8 = ys @ run_of 8 (first run) n @ zs"
      using inv True by (auto simp: scan_inv_def first_append)
    have "first run + k * 4096 \<in> set (F 8)" if "k \<le> n" for k
    proof (cases "k = n")
      case True
      then show ?thesis using z F by (cases zs) auto
    next
      case False
      then show ?thesis using that F by (auto simp: run_of_iff page_bytes)
    qed
    then have pf: "pages_from F n (first run)" by (simp add: pages_from_def)
    moreover have "pool_alloc_continues A 8 n P =
      Some (first run, take_n 8 n (store_slot A 8 (slot_of ys) (first zs) P))"
      using r True ne top_size [OF wf] head by (simp add: pool_alloc_continues_def take_n_def first_append)
    moreover have "\<exists>b. pages_from F n b" using pf by blast
    ultimately show ?thesis using F by (simp only: if_True) blast
  next
    case False
    then have "zs = []" "run = []" using stop inv by (auto simp: scan_inv_def)
    then have "\<not> (\<exists>b. pages_from F n b)" using inv by (auto simp: scan_inv_def)
    moreover have "pool_alloc_continues A 8 n P = Some (0, P)"
      using r \<open>run = []\<close> n top_size [OF wf] head by (simp add: pool_alloc_continues_def)
    ultimately show ?thesis by simp
  qed
qed

lemma page_mask:
  assumes "x < 4294967296"
  shows "x AND unat (NOT ((4096 :: u32) - 1)) = x div 4096 * 4096"
proof -
  have "unat (NOT ((4096 :: u32) - 1)) = push_bit 12 (mask 20)" by (simp add: mask_eq_exp_minus_1)
  moreover have "x AND push_bit 12 (mask 20) = push_bit 12 (drop_bit 12 x)"
  proof (rule bit_eqI)
    fix n
    have "bit x n \<Longrightarrow> n < 32"
    proof (rule ccontr)
      assume "bit x n" "\<not> n < 32"
      moreover have "take_bit 32 x = x" using assms by (simp add: take_bit_nat_eq_self)
      ultimately show False by (metis bit_take_bit_iff)
    qed
    then show "bit (x AND push_bit 12 (mask 20)) n \<longleftrightarrow> bit (push_bit 12 (drop_bit 12 x)) n"
      by (auto simp: bit_simps)
  qed
  ultimately show ?thesis by (simp add: drop_bit_eq_div push_bit_eq_mult)
qed

lemma round_to_pages: "((sz + 15) div 8 * 8 + 4095) div 4096 = (sz + 8 + 4095) div (4096 :: nat)"
proof -
  have d: "x div 4096 = x div 8 div 512" for x :: nat using div_mult2_eq [of x 8 512] by simp
  have "((sz + 15) div 8 * 8 + 4095) div 8 = (sz + 15) div 8 + 511"
    "(sz + 8 + 4095) div 8 = (sz + 15) div 8 + 511" by presburger+
  then show ?thesis unfolding d by simp
qed

text \<open>The pages of a request with its header.\<close>

definition pages_needed :: "nat \<Rightarrow> nat" where
  "pages_needed sz = (sz + 8 + 4095) div 4096"

lemma malloc_large_eq:
  assumes "sz \<noteq> 0" "((sz + HEADER_SIZE) mod modulus A + MEM_ALIGN - 1) mod modulus A div MEM_ALIGN * MEM_ALIGN = s"
    "obj_size (bds P ! (BUDY_COUNT - 1)) = 4096" "4096 < s"
    and n: "((s + 4096 - 1) mod modulus A) AND unat (NOT ((4096 :: u32) - 1)) = n * 4096"
  shows "pool_malloc A sz P =
    (case pool_alloc_continues A 8 n P of
       None \<Rightarrow> None
     | Some (bh, P) \<Rightarrow>
         if bh = 0 then Some (Inr (0, P)) else Some (Inr (bh + 8, upd_blocks (write_header bh 8 n) P)))"
proof -
  have top: "BUDY_COUNT - 1 = 8" by (simp add: BUDY_COUNT_def)
  have page: "unat (obj_size (bds P ! (BUDY_COUNT - 1))) = 4096" using assms(3) by simp
  have c: "n * 4096 div 4096 = n" by simp
  show ?thesis using assms(1,4)
    unfolding pool_malloc_def Let_def assms(2) page unfolding assms(3) unfolding n c top
    by (simp only: if_False if_True HEADER_SIZE_def)
qed

lemma malloc_large:
  assumes wf: "wf A P F lo hi" and sz: "4088 < sz" "sz + 8205 < 4294967296"
  shows "if \<exists>b. pages_from F (pages_needed sz) b
    then \<exists>bh P' F'. pool_malloc A sz P = Some (Inr (bh + 8, P')) \<and> pages_from F (pages_needed sz) bh \<and>
      handed_out A P F lo hi bh 8 (pages_needed sz) P' F'
    else pool_malloc A sz P = Some (Inr (0, P))"
proof -
  let ?s = "(sz + 15) div 8 * 8" and ?n = "pages_needed sz"
  have ok: "abi_ok A" and lay: "layout F lo hi" using wf by (auto simp: wf_def)
  have s: "4096 < ?s" "?s + 4095 < 4294967296" "(?s + 4095) div 4096 = ?n"
    unfolding pages_needed_def round_to_pages using sz by auto
  have "4294967296 \<le> modulus A" using ok by (auto simp: abi_ok_def modulus_def)
  then have "(?s + 4096 - 1) mod modulus A = ?s + 4095" using s(2) by simp
  then have n: "((?s + 4096 - 1) mod modulus A) AND unat (NOT ((4096 :: u32) - 1)) = ?n * 4096"
    using page_mask [OF s(2)] s(3) by simp
  have m: "pool_malloc A sz P =
    (case pool_alloc_continues A 8 ?n P of
       None \<Rightarrow> None
     | Some (bh, P) \<Rightarrow>
         if bh = 0 then Some (Inr (0, P)) else Some (Inr (bh + 8, upd_blocks (write_header bh 8 ?n) P)))"
    using sz s(1) top_size [OF wf]
    by (intro malloc_large_eq [OF _ rounded [OF _ ok] _ _ n]) (simp_all add: BUDY_COUNT_def)
  have n: "0 < ?n" using sz(1) by (simp add: pages_needed_def)
  note scan = alloc_continues_ok [OF wf n]
  show ?thesis
  proof (cases "\<exists>b. pages_from F ?n b")
    case True
    then obtain bh ys zs where r: "pool_alloc_continues A 8 ?n P = Some (bh, take_n 8 ?n (store_slot A 8 (slot_of ys) (first zs) P))"
      "F 8 = ys @ run_of 8 bh ?n @ zs" "pages_from F ?n bh" using scan by (simp only: if_True) blast
    have "bh \<in> set (F 8)" using r(3) by (auto simp: pages_from_def dest: spec [of _ 0])
    then have "bh \<noteq> 0" using layout_in [OF lay, of 8 bh] by simp
    then show ?thesis using m r hand_out_run [OF wf _ n r(2) refl] True by (simp add: exI)
  next
    case False
    then show ?thesis using m scan by simp
  qed
qed

end
