(* ===== verification/Pool_Correct.thy ===== *)
theory Pool_Correct
  imports Pool_Large
begin

text \<open>
  The contract of the memory pool: what a client of \<open>pool_create\<close>, \<open>pool_malloc\<close> and
  \<open>pool_free\<close> can rely on, as an interface of allocators and as properties of the code, for the
  host's and the guest's pointers alike.
\<close>

section \<open>pool_free\<close>

lemma free_ok:
  assumes wf: "wf A P F lo hi" and i: "i < 9" and n: "0 < n" and fr: "fresh F i bh n lo hi"
    and hdr: "header (blocks P) bh i n"
  shows "\<exists>P' F'. pool_free A (bh + 8) P = Some (Inr ([], P')) \<and> wf A P' F' lo hi \<and>
    free_bytes F' = free_bytes F \<union> {bh ..< bh + n * obj_bytes i} \<and>
    same_outside (free_bytes F \<union> {bh ..< bh + n * obj_bytes i}) (blocks P) (blocks P')"
proof -
  obtain P1 where P1: "pool_add_free A i bh (int n) P = Some P1" "wf A P1 (put F i bh n) lo hi"
    "same_outside (free_bytes F \<union> {bh ..< bh + n * obj_bytes i}) (blocks P) (blocks P1)"
    using add_free_bytes [OF wf i n fr] .
  have bytes: "free_bytes (put F i bh n) = free_bytes F \<union> {bh ..< bh + n * obj_bytes i}"
    using free_bytes_put [OF i] .
  have f: "pool_free A (bh + 8) P = (if SHRINK_THD < free_n (bds P1 ! i)
      then map_option (\<lambda>P. Inr ([], P)) (pool_try_shrink A i P1) else Some (Inr ([], P1)))"
    using hdr i P1(1) by (simp add: pool_free_def header_def HEADER_SIZE_def BUDY_COUNT_def Let_def)
  show ?thesis
  proof (cases "SHRINK_THD < free_n (bds P1 ! i)")
    case True
    then show ?thesis using f try_shrink_ok [OF P1(2) i] same_outside_trans [OF P1(3)] unfolding bytes by fastforce
  next
    case False
    then show ?thesis using f P1 bytes by auto
  qed
qed

section \<open>The interface of an allocator\<close>

locale block_allocator =
  fixes inv :: "'p \<Rightarrow> 'f \<Rightarrow> bool" and free :: "'f \<Rightarrow> nat set" and own :: "nat set" and mem_of :: "'p \<Rightarrow> mem"
    and upd :: "(mem \<Rightarrow> mem) \<Rightarrow> 'p \<Rightarrow> 'p"
    and alloc :: "nat \<Rightarrow> 'p \<Rightarrow> (nat \<times> 'p) res option"
    and release :: "nat \<Rightarrow> 'p \<Rightarrow> (string \<times> 'p) res option"
    and block :: "mem \<Rightarrow> nat \<Rightarrow> nat set \<Rightarrow> bool" and ok_size :: "nat \<Rightarrow> bool"
  assumes own_apart: "inv P F \<Longrightarrow> free F \<inter> own = {}"
    and alloc_block: "inv P F \<Longrightarrow> ok_size n \<Longrightarrow> alloc n P = Some (Inr (a, P')) \<Longrightarrow> a \<noteq> 0 \<Longrightarrow>
      \<exists>F' R. inv P' F' \<and> free F = free F' \<union> R \<and> free F' \<inter> R = {} \<and> block (mem_of P') a R \<and> {a ..< a + n} \<subseteq> R \<and>
        same_outside (free F \<union> own) (mem_of P) (mem_of P')"
    and release_block: "inv P F \<Longrightarrow> block (mem_of P) a R \<Longrightarrow> (free F \<union> own) \<inter> R = {} \<Longrightarrow>
      \<exists>P' F'. release a P = Some (Inr ([], P')) \<and> inv P' F' \<and> free F' = free F \<union> R \<and>
        same_outside (free F \<union> R \<union> own) (mem_of P) (mem_of P')"
    and block_frame: "block m a R \<Longrightarrow> same_outside S m m' \<Longrightarrow> S \<inter> R \<inter> {..<a} = {} \<Longrightarrow> block m' a R"
    and inv_write: "inv P F \<Longrightarrow> (\<And>m. same_outside S m (g m)) \<Longrightarrow> S \<inter> (free F \<union> own) = {} \<Longrightarrow> inv (upd g P) F"
    and mem_upd: "mem_of (upd g P) = g (mem_of P)"
begin

text \<open>
  Two blocks do not overlap; whatever the client writes into them, both can be given back, in the
  order of their allocation, and then the allocator has all its bytes again.
\<close>

lemma two_blocks:
  assumes inv: "inv P F" and sizes: "ok_size n" "ok_size k"
    and a: "alloc n P = Some (Inr (a, P1))" "a \<noteq> 0" and b: "alloc k P1 = Some (Inr (b, P2))" "b \<noteq> 0"
    and g: "\<And>m. same_outside ({a ..< a + n} \<union> {b ..< b + k}) m (g m)"
  shows "{a ..< a + n} \<inter> {b ..< b + k} = {} \<and>
    (\<exists>P3 P4 F4. release a (upd g P2) = Some (Inr ([], P3)) \<and> release b P3 = Some (Inr ([], P4)) \<and>
       inv P4 F4 \<and> free F4 = free F)"
proof -
  from alloc_block [OF inv sizes(1) a] obtain F1 Ra where A: "inv P1 F1" "free F = free F1 \<union> Ra" "free F1 \<inter> Ra = {}"
    "block (mem_of P1) a Ra" "{a ..< a + n} \<subseteq> Ra" by blast
  from alloc_block [OF A(1) sizes(2) b] obtain F2 Rb where B: "inv P2 F2" "free F1 = free F2 \<union> Rb" "free F2 \<inter> Rb = {}"
    "block (mem_of P2) b Rb" "{b ..< b + k} \<subseteq> Rb" "same_outside (free F1 \<union> own) (mem_of P1) (mem_of P2)" by blast
  have disj: "Ra \<inter> Rb = {}" using A(3) B(2) by blast
  have own: "Ra \<inter> own = {}" "Rb \<inter> own = {}" using own_apart [OF inv] A(2) B(2) by auto
  have "block (mem_of P2) a Ra" by (rule block_frame [OF A(4) B(6)]) (use A(3) own in blast)
  then have ga: "block (mem_of (upd g P2)) a Ra" unfolding mem_upd
    by (rule block_frame [OF _ g]) (use A(5) B(5) disj in auto)
  have gb: "block (mem_of (upd g P2)) b Rb" unfolding mem_upd
    by (rule block_frame [OF B(4) g]) (use A(5) B(5) disj in auto)
  have wf: "inv (upd g P2) F2" by (rule inv_write [OF B(1) g]) (use A(3,5) B(2,3,5) own in blast)
  have "(free F2 \<union> own) \<inter> Ra = {}" using A(3) B(2) own by blast
  from release_block [OF wf ga this] obtain P3 F3 where C: "release a (upd g P2) = Some (Inr ([], P3))" "inv P3 F3"
    "free F3 = free F2 \<union> Ra" "same_outside (free F2 \<union> Ra \<union> own) (mem_of (upd g P2)) (mem_of P3)" by blast
  have "block (mem_of P3) b Rb" by (rule block_frame [OF gb C(4)]) (use B(3) disj own in blast)
  moreover have "(free F3 \<union> own) \<inter> Rb = {}" using C(3) B(3) disj own by blast
  ultimately obtain P4 F4 where D: "release b P3 = Some (Inr ([], P4))" "inv P4 F4" "free F4 = free F3 \<union> Rb"
    using release_block [OF C(2)] by blast
  have "free F4 = free F" using D(3) C(3) A(2) B(2) by blast
  then show ?thesis using A(5) B(5) disj C(1) D by blast
qed

lemma block_kept:
  assumes "inv P F" "ok_size n" "alloc n P = Some (Inr (a, P'))" "a \<noteq> 0" "block (mem_of P) b R" "(free F \<union> own) \<inter> R = {}"
  shows "block (mem_of P') b R \<and> {a ..< a + n} \<inter> R = {}"
proof -
  from alloc_block [OF assms(1-4)] obtain F' R' where "free F = free F' \<union> R'" "{a ..< a + n} \<subseteq> R'"
    "same_outside (free F \<union> own) (mem_of P) (mem_of P')" by blast
  then show ?thesis using block_frame [OF assms(5)] assms(6) by blast
qed

end

section \<open>The pool is an allocator\<close>

definition max_request :: nat where "max_request = 268431352"

text \<open>The block of a pointer that the pool has handed out, according to its header.\<close>

definition block_of :: "nat \<Rightarrow> nat \<Rightarrow> mem \<Rightarrow> nat \<Rightarrow> nat set \<Rightarrow> bool" where
  "block_of lo hi m a R \<longleftrightarrow> (\<exists>bh i n. a = bh + 8 \<and> i < 9 \<and> 0 < n \<and> header m bh i n \<and>
     R = {bh ..< bh + n * obj_bytes i} \<and> lo \<le> bh \<and> bh + n * obj_bytes i \<le> hi)"

lemma handed_out_block:
  assumes "handed_out A P F lo hi bh i n P' F'" "i < 9" "0 < n" "n < 65536" "sz + 8 \<le> n * obj_bytes i"
  shows "\<exists>F' R. wf A P' F' lo hi \<and> free_bytes F = free_bytes F' \<union> R \<and> free_bytes F' \<inter> R = {} \<and>
    block_of lo hi (blocks P') (bh + 8) R \<and> {bh + 8 ..< bh + 8 + sz} \<subseteq> R \<and>
    same_outside (free_bytes F) (blocks P) (blocks P')"
proof (intro exI conjI)
  show "block_of lo hi (blocks P') (bh + 8) {bh ..< bh + n * obj_bytes i}"
    using assms unfolding block_of_def handed_out_def fresh_def by (metis mod_less)
qed (use assms in \<open>auto simp: handed_out_def fresh_def\<close>)

lemma malloc_block:
  assumes wf: "wf A P F lo hi" and sz: "0 < sz \<and> sz \<le> max_request"
    and m: "pool_malloc A sz P = Some (Inr (a, P'))" "a \<noteq> 0"
  shows "\<exists>F' R. wf A P' F' lo hi \<and> free_bytes F = free_bytes F' \<union> R \<and> free_bytes F' \<inter> R = {} \<and>
    block_of lo hi (blocks P') a R \<and> {a ..< a + sz} \<subseteq> R \<and> same_outside (free_bytes F) (blocks P) (blocks P')"
proof (cases "sz \<le> 4088")
  case True
  with malloc_small [OF wf, of sz] sz m obtain i bh F' where
    b: "best_bucket (sz + 8) i" "a = bh + 8" "handed_out A P F lo hi bh i 1 P' F'"
    by (auto split: if_splits)
  then show ?thesis using handed_out_block [OF b(3), of sz] by (simp add: best_bucket_def)
next
  case False
  let ?n = "pages_needed sz"
  have "4088 < sz" "sz + 8205 < 4294967296" using False sz by (auto simp: max_request_def)
  from malloc_large [OF wf this] m obtain bh F' where
    b: "a = bh + 8" "handed_out A P F lo hi bh 8 ?n P' F'" by (auto split: if_splits)
  have n: "0 < ?n" "?n < 65536" "sz + 8 \<le> ?n * 4096"
    using False sz unfolding pages_needed_def max_request_def by (auto simp: div_less_iff_less_mult)
  then show ?thesis using handed_out_block [OF b(2) _ n(1,2), of sz] b(1) by (simp add: page_bytes)
qed

lemma free_block:
  assumes wf: "wf A P F lo hi" and b: "block_of lo hi (blocks P) a R" and sep: "free_bytes F \<inter> R = {}"
  shows "\<exists>P' F'. pool_free A a P = Some (Inr ([], P')) \<and> wf A P' F' lo hi \<and> free_bytes F' = free_bytes F \<union> R \<and>
    same_outside (free_bytes F \<union> R) (blocks P) (blocks P')"
proof -
  obtain bh i n where h: "a = bh + 8" "i < 9" "0 < n" "header (blocks P) bh i n" "R = {bh ..< bh + n * obj_bytes i}"
    "lo \<le> bh" "bh + n * obj_bytes i \<le> hi" using b by (auto simp: block_of_def)
  then have "fresh F i bh n lo hi" using sep by (simp add: fresh_def Int_commute)
  then show ?thesis using free_ok [OF wf h(2,3) _ h(4)] h(1,5) by simp
qed

lemma block_of_frame:
  assumes "block_of lo hi m a R" "same_outside S m m'" "S \<inter> R \<inter> {..<a} = {}"
  shows "block_of lo hi m' a R"
proof -
  obtain bh i n where h: "a = bh + 8" "i < 9" "0 < n" "header m bh i n" "R = {bh ..< bh + n * obj_bytes i}"
    "lo \<le> bh" "bh + n * obj_bytes i \<le> hi" using assms(1) by (auto simp: block_of_def)
  have "{bh ..< bh + 8} \<subseteq> R \<inter> {..<a}" using header_inside [OF h(3), of bh i] h(1,5) by auto
  then have "{bh ..< bh + 8} \<inter> S = {}" using assms(3) by blast
  then have "header m' bh i n" using header_same [OF assms(2) _ h(4)] by simp
  then show ?thesis using h by (auto simp: block_of_def)
qed

interpretation pool_alloc: block_allocator "\<lambda>P F. wf A P F lo hi" free_bytes "{}" blocks upd_blocks
    "pool_malloc A" "pool_free A" "block_of lo hi" "\<lambda>n. 0 < n \<and> n \<le> max_request"
proof
  show "\<exists>F' R. wf A P' F' lo hi \<and> free_bytes F = free_bytes F' \<union> R \<and> free_bytes F' \<inter> R = {} \<and>
      block_of lo hi (blocks P') a R \<and> {a ..< a + n} \<subseteq> R \<and> same_outside (free_bytes F \<union> {}) (blocks P) (blocks P')"
    if "wf A P F lo hi" "0 < n \<and> n \<le> max_request" "pool_malloc A n P = Some (Inr (a, P'))" "a \<noteq> 0" for P F n a P'
    using malloc_block that by simp
  show "\<exists>P' F'. pool_free A a P = Some (Inr ([], P')) \<and> wf A P' F' lo hi \<and> free_bytes F' = free_bytes F \<union> R \<and>
      same_outside (free_bytes F \<union> R \<union> {}) (blocks P) (blocks P')"
    if "wf A P F lo hi" "block_of lo hi (blocks P) a R" "(free_bytes F \<union> {}) \<inter> R = {}" for P F a R
    using free_block that by simp
qed (use block_of_frame wf_write in \<open>simp_all, blast+\<close>)

section \<open>A concrete pool\<close>

text \<open>A region of six pages on the host: the bucket array, four pages, and a page that is not used.\<close>

lemma sample_start: "pool_start host_abi 0x1000 = 0x2000" "page_count 0x7000 0x2000 = 4"
  by (simp_all add: pool_start_def page_round_def host_abi_def BUDY_COUNT_def PAGE_SIZE_def modulus_def page_count_def)

lemma host_modulus: "modulus host_abi = 18446744073709551616"
  by (simp add: modulus_def host_abi_def)

lemma sample_pool:
  obtains P where "pool_create host_abi 0x1000 0x6000 (\<lambda>_. 0) = Inr (Some P)"
    "wf host_abi P (pages 0x2000 4) 0x2000 0x6000"
proof -
  have b: "bucket_size host_abi * BUDY_COUNT = 144" by (simp add: host_abi_def BUDY_COUNT_def)
  have "\<exists>P. pool_create host_abi 0x1000 (int 0x6000) (\<lambda>_. 0) = Inr (Some P) \<and>
    wf host_abi P (pages (pool_start host_abi 0x1000) (page_count (0x1000 + 0x6000) (pool_start host_abi 0x1000)))
      (pool_start host_abi 0x1000)
      (pool_start host_abi 0x1000 + page_count (0x1000 + 0x6000) (pool_start host_abi 0x1000) * 4096) \<and>
    same_outside {pool_start host_abi 0x1000 ..<
      pool_start host_abi 0x1000 + page_count (0x1000 + 0x6000) (pool_start host_abi 0x1000) * 4096} (\<lambda>_. 0) (blocks P)"
    by (rule create_pool) (simp_all add: sample_start host_modulus b)
  then obtain P where "pool_create host_abi 0x1000 (int 0x6000) (\<lambda>_. 0) = Inr (Some P)"
    "wf host_abi P (pages 0x2000 4) 0x2000 (0x2000 + 4 * 4096)" by (auto simp: sample_start)
  then show thesis by (intro that) simp_all
qed

lemma pages_from_pages: "(\<exists>b. pages_from (pages s k) n b) \<longleftrightarrow> n < k"
proof
  assume "n < k"
  then have "pages_from (pages s k) n s" by (auto simp: pages_from_def pages_def run_of_iff page_bytes)
  then show "\<exists>b. pages_from (pages s k) n b" ..
next
  assume "\<exists>b. pages_from (pages s k) n b"
  then obtain b where b: "pages_from (pages s k) n b" ..
  then have "b + j * 4096 \<in> set (run_of 8 s k)" if "j \<le> n" for j
    using that by (simp add: pages_from_def pages_def)
  from this [of 0] this [of n] have "s \<le> b" "b + n * 4096 + 4096 \<le> s + k * 4096"
    using run_of_inside [of b 8 s k] run_of_inside [of "b + n * 4096" 8 s k] by (simp_all add: page_bytes)
  then show "n < k" by linarith
qed

lemma sample_two_pages:
  "pages_needed 8000 = 2" "\<exists>b. pages_from (pages 0x2000 4) (pages_needed 8000) b"
  by (simp_all add: pages_needed_def pages_from_pages)

lemma sample_handed_out:
  "\<exists>P bh P' F'. handed_out host_abi P (pages 0x2000 4) 0x2000 0x6000 bh 8 2 P' F'"
proof -
  obtain P where P: "wf host_abi P (pages 0x2000 4) 0x2000 0x6000" using sample_pool by blast
  show ?thesis using malloc_large [OF P, of 8000] sample_two_pages by auto
qed

section \<open>Properties\<close>

text \<open>
  C14: A new pool. When a page fits, \<open>pool_create\<close> returns a well-formed pool. Its free bytes begin
  at the first page boundary behind the bucket array and are the pages from there on that end
  before the last byte of the region does: what it leaves at the end is at least one byte and at
  most a page, so a page that ends exactly with the region is not free. Outside the bucket array it
  writes those pages only.
\<close>

theorem pool_create_well_formed:
  assumes "abi_ok A" "0 < addr" "4096 < sz" "addr + sz < modulus A" "sz \<le> 2 ^ 35"
    and "addr + bucket_size A * BUDY_COUNT + 4095 < modulus A" "pool_start A addr + 4096 < addr + sz"
  shows "\<exists>P F lo hi. pool_create A addr (int sz) m = Inr (Some P) \<and> wf A P F lo hi \<and>
    free_bytes F = {lo ..< hi} \<and> same_outside {lo ..< hi} m (blocks P) \<and>
    4096 dvd lo \<and> 4096 dvd hi \<and>
    addr + bucket_size A * BUDY_COUNT \<le> lo \<and> lo < addr + bucket_size A * BUDY_COUNT + 4096 \<and>
    hi < addr + sz \<and> addr + sz \<le> hi + 4096"
proof -
  let ?lo = "pool_start A addr" and ?k = "page_count (addr + sz) (pool_start A addr)"
  obtain P where P: "pool_create A addr (int sz) m = Inr (Some P)" "wf A P (pages ?lo ?k) ?lo (?lo + ?k * 4096)"
    "same_outside {?lo ..< ?lo + ?k * 4096} m (blocks P)"
    using create_pool [OF assms, of m] by blast
  have "?lo + ?k * 4096 < addr + sz" "addr + sz \<le> ?lo + ?k * 4096 + 4096"
    using page_count_bound [of ?lo "addr + sz"] page_count_reach [of "addr + sz" ?lo] assms(7) by linarith+
  moreover have "4096 dvd ?lo + ?k * 4096" using pool_start_near(1) [OF assms(6)] by (intro dvd_add) simp_all
  ultimately show ?thesis
    using P free_bytes_pages [of ?lo ?k] pool_start_above [OF assms(6)] pool_start_near [OF assms(6)] by blast
qed

theorem pool_create_well_formed_witness:
  "\<exists>P F lo hi. pool_create host_abi 0x1000 0x6000 (\<lambda>_. 0) = Inr (Some P) \<and> wf host_abi P F lo hi \<and>
     free_bytes F = {lo ..< hi} \<and> hi < 0x7000 \<and> 0x6000 \<le> hi"
proof -
  obtain P F lo hi where "pool_create host_abi 0x1000 (int 0x6000) (\<lambda>_. 0) = Inr (Some P)" "wf host_abi P F lo hi"
    "free_bytes F = {lo ..< hi}" "hi < 0x1000 + 0x6000" "0x1000 + 0x6000 \<le> hi + (4096 :: nat)"
    using pool_create_well_formed [of host_abi "0x1000" "0x6000" "\<lambda>_. 0"]
    by (simp add: sample_start host_modulus) (auto simp: host_abi_def BUDY_COUNT_def)
  then show ?thesis by (intro exI [of _ P] exI [of _ F] exI [of _ lo] exI [of _ hi]) simp
qed

text \<open>
  C4: Small requests. A request of at most 4088 bytes gets a block of the smallest size that holds
  it and its header, split off a larger one where necessary; it fails exactly when every list from
  that size on is empty.
\<close>

theorem pool_malloc_small:
  assumes "wf A P F lo hi" "0 < sz" "sz \<le> 4088"
  shows "\<exists>i. best_bucket (sz + 8) i \<and>
    (if \<forall>j. i \<le> j \<and> j < 9 \<longrightarrow> F j = [] then pool_malloc A sz P = Some (Inr (0, P))
     else \<exists>bh P' F'. pool_malloc A sz P = Some (Inr (bh + 8, P')) \<and> handed_out A P F lo hi bh i 1 P' F')"
  by (rule malloc_small [OF assms])

theorem pool_malloc_small_witness:
  "\<exists>P bh P' F' i. pool_malloc host_abi 100 P = Some (Inr (bh + 8, P')) \<and> best_bucket 108 i \<and>
     handed_out host_abi P (pages 0x2000 4) 0x2000 0x6000 bh i 1 P' F'"
proof -
  obtain P where P: "wf host_abi P (pages 0x2000 4) 0x2000 0x6000" using sample_pool by blast
  from pool_malloc_small [OF P, of 100] obtain i where i: "best_bucket 108 i"
    "if \<forall>j. i \<le> j \<and> j < 9 \<longrightarrow> pages 0x2000 4 j = [] then pool_malloc host_abi 100 P = Some (Inr (0, P))
     else \<exists>bh P' F'. pool_malloc host_abi 100 P = Some (Inr (bh + 8, P')) \<and>
       handed_out host_abi P (pages 0x2000 4) 0x2000 0x6000 bh i 1 P' F'" by auto
  have "i \<le> 8 \<and> (8 :: nat) < 9 \<and> pages 0x2000 4 8 \<noteq> []" using i(1) by (auto simp: best_bucket_def pages_def)
  then have "\<not> (\<forall>j. i \<le> j \<and> j < 9 \<longrightarrow> pages 0x2000 4 j = [])" by blast
  then show ?thesis using i by (simp only: if_False) blast
qed

text \<open>
  C3: Large requests. A request that needs \<open>n\<close> pages gets \<open>n\<close> consecutive pages exactly when the
  pool has \<open>n + 1\<close> consecutive free pages: a run of pages that is not followed by another free page
  is one page shorter for the allocator than it is.
\<close>

theorem pool_malloc_pages:
  assumes "wf A P F lo hi" "4088 < sz" "sz + 8205 < 4294967296"
  shows "if \<exists>b. pages_from F (pages_needed sz) b
    then \<exists>bh P' F'. pool_malloc A sz P = Some (Inr (bh + 8, P')) \<and> pages_from F (pages_needed sz) bh \<and>
      handed_out A P F lo hi bh 8 (pages_needed sz) P' F'
    else pool_malloc A sz P = Some (Inr (0, P))"
  by (rule malloc_large [OF assms])

theorem pool_malloc_pages_witness:
  "\<exists>P bh P' F'. pool_malloc host_abi 8000 P = Some (Inr (bh + 8, P')) \<and>
     handed_out host_abi P (pages 0x2000 4) 0x2000 0x6000 bh 8 2 P' F'"
proof -
  obtain P where P: "wf host_abi P (pages 0x2000 4) 0x2000 0x6000" using sample_pool by blast
  show ?thesis using pool_malloc_pages [OF P, of 8000] sample_two_pages by auto
qed

text \<open>
  C5: Freeing. \<open>pool_free\<close> of a block whose header is intact and which is not free returns, prints
  nothing, and adds exactly the block's bytes to the free bytes of a well-formed pool, merging
  included; it writes nothing but free bytes.
\<close>

theorem pool_free_gives_back:
  assumes "wf A P F lo hi" "i < 9" "0 < n" "fresh F i bh n lo hi" "header (blocks P) bh i n"
  shows "\<exists>P' F'. pool_free A (bh + 8) P = Some (Inr ([], P')) \<and> wf A P' F' lo hi \<and>
    free_bytes F' = free_bytes F \<union> {bh ..< bh + n * obj_bytes i} \<and>
    same_outside (free_bytes F \<union> {bh ..< bh + n * obj_bytes i}) (blocks P) (blocks P')"
  by (rule free_ok [OF assms])

theorem pool_free_gives_back_witness:
  "\<exists>P bh P' F'. pool_free host_abi (bh + 8) P = Some (Inr ([], P')) \<and> wf host_abi P' F' 0x2000 0x6000 \<and>
     free_bytes F' = {0x2000 ..< 0x6000}"
proof -
  obtain P bh P' F' where h: "handed_out host_abi P (pages 0x2000 4) 0x2000 0x6000 bh 8 2 P' F'"
    using sample_handed_out by blast
  have "free_bytes F' \<union> {bh ..< bh + 2 * obj_bytes 8} = {0x2000 ..< 0x6000}"
    using h free_bytes_pages [of "0x2000" 4] by (simp add: handed_out_def)
  then show ?thesis
    using pool_free_gives_back [of host_abi P' F' "0x2000" "0x6000" 8 2 bh] h unfolding handed_out_def by auto
qed

text \<open>
  C2: Two clients. Two blocks handed out one after the other do not overlap; after any writes into
  them, both can be freed, and then the pool has exactly the free bytes it started with.
\<close>

theorem pool_two_blocks:
  assumes "wf A P F lo hi" "0 < n" "n \<le> max_request" "0 < k" "k \<le> max_request"
    and "pool_malloc A n P = Some (Inr (a, P1))" "a \<noteq> 0" "pool_malloc A k P1 = Some (Inr (b, P2))" "b \<noteq> 0"
    and "\<And>m. same_outside ({a ..< a + n} \<union> {b ..< b + k}) m (g m)"
  shows "{a ..< a + n} \<inter> {b ..< b + k} = {} \<and>
    (\<exists>P3 P4 F4. pool_free A a (upd_blocks g P2) = Some (Inr ([], P3)) \<and> pool_free A b P3 = Some (Inr ([], P4)) \<and>
       wf A P4 F4 lo hi \<and> free_bytes F4 = free_bytes F)"
  by (rule pool_alloc.two_blocks [OF assms(1) _ _ assms(6-10)]) (use assms in simp_all)

theorem pool_two_blocks_witness:
  "\<exists>P a P1 b P2 P3 P4 F4. pool_malloc host_abi 4088 P = Some (Inr (a, P1)) \<and> pool_malloc host_abi 1 P1 = Some (Inr (b, P2)) \<and>
     b \<notin> {a ..< a + 4088} \<and> pool_free host_abi a P2 = Some (Inr ([], P3)) \<and> pool_free host_abi b P3 = Some (Inr ([], P4)) \<and>
     wf host_abi P4 F4 0x2000 0x6000 \<and> free_bytes F4 = {0x2000 ..< 0x6000}"
proof -
  let ?F = "pages 0x2000 4"
  obtain P where P: "wf host_abi P ?F 0x2000 0x6000" using sample_pool by blast
  from malloc_small [OF P, of 4088] obtain i where i: "best_bucket 4096 i"
    "if \<forall>j. i \<le> j \<and> j < 9 \<longrightarrow> ?F j = [] then pool_malloc host_abi 4088 P = Some (Inr (0, P))
     else \<exists>bh P' F'. pool_malloc host_abi 4088 P = Some (Inr (bh + 8, P')) \<and>
       handed_out host_abi P ?F 0x2000 0x6000 bh i 1 P' F'" by auto
  have "i \<le> 8 \<and> (8 :: nat) < 9 \<and> ?F 8 \<noteq> []" using i(1) by (auto simp: best_bucket_def pages_def)
  then have "\<not> (\<forall>j. i \<le> j \<and> j < 9 \<longrightarrow> ?F j = [])" by blast
  then obtain a P1 F1 where A: "pool_malloc host_abi 4088 P = Some (Inr (a + 8, P1))"
    "handed_out host_abi P ?F 0x2000 0x6000 a i 1 P1 F1" using i(2) by (simp only: if_False) blast
  have P1: "wf host_abi P1 F1 0x2000 0x6000" using A(2) by (simp add: handed_out_def)
  have "free_bytes F1 \<noteq> {}"
  proof
    assume "free_bytes F1 = {}"
    then have e: "{0x2000 ..< 0x6000} = {a ..< a + obj_bytes i}"
      using A(2) free_bytes_pages [of "0x2000" 4] by (simp add: handed_out_def)
    have "0x2000 \<in> {a ..< a + obj_bytes i}" "0x5FFF \<in> {a ..< a + obj_bytes i}" unfolding e [symmetric] by simp_all
    moreover have "obj_bytes i \<le> 4096" using i(1) obj_bytes_le by (simp add: best_bucket_def)
    ultimately show False by simp
  qed
  then obtain j where j: "j < 9" "F1 j \<noteq> []" unfolding free_bytes_def bytes_of_def by fastforce
  from malloc_small [OF P1, of 1] obtain k where k: "best_bucket 9 k"
    "if \<forall>j. k \<le> j \<and> j < 9 \<longrightarrow> F1 j = [] then pool_malloc host_abi 1 P1 = Some (Inr (0, P1))
     else \<exists>bh P' F'. pool_malloc host_abi 1 P1 = Some (Inr (bh + 8, P')) \<and>
       handed_out host_abi P1 F1 0x2000 0x6000 bh k 1 P' F'" by auto
  have "k = 0" using k(1) obj_bytes_ge [of 0] unfolding best_bucket_def by fastforce
  then obtain b P2 where B: "pool_malloc host_abi 1 P1 = Some (Inr (b + 8, P2))"
    using k(2) j by (auto split: if_splits)
  have g: "upd_blocks (\<lambda>m. m) P2 = P2" by (simp add: upd_blocks_def)
  have "(0 :: nat) < 4088" "4088 \<le> max_request" "(0 :: nat) < 1" "1 \<le> max_request" "a + 8 \<noteq> 0" "b + 8 \<noteq> 0"
    by (simp_all add: max_request_def)
  note two = pool_two_blocks [OF P this(1-4) A(1) this(5) B this(6) same_outside_refl, unfolded g]
  have "free_bytes ?F = {0x2000 ..< 0x6000}" using free_bytes_pages [of "0x2000" 4] by simp
  moreover have "b + 8 \<in> {b + 8 ..< b + 8 + 1}" by simp
  ultimately show ?thesis using A(1) B two by blast
qed

text \<open>
  C16: Merging. \<open>pool_try_shrink\<close> returns on every well-formed pool, keeps it well formed and keeps
  the set of free bytes.
\<close>

theorem pool_try_shrink_conserves:
  assumes "wf A P F lo hi" "i < 9"
  shows "\<exists>P' F'. pool_try_shrink A i P = Some P' \<and> wf A P' F' lo hi \<and>
    free_bytes F' = free_bytes F \<and> same_outside (free_bytes F) (blocks P) (blocks P')"
  by (rule try_shrink_ok [OF assms])

theorem pool_try_shrink_conserves_witness:
  "\<exists>P P' F'. pool_try_shrink host_abi 0 P = Some P' \<and> wf host_abi P' F' 0x2000 0x6000 \<and>
     free_bytes F' = {0x2000 ..< 0x6000}"
proof -
  obtain P where "wf host_abi P (pages 0x2000 4) 0x2000 0x6000" using sample_pool by blast
  from pool_try_shrink_conserves [OF this, of 0] show ?thesis using free_bytes_pages [of "0x2000" 4] by auto
qed

text \<open>
  A pool without a page. When the region is larger than a page but no aligned page ends below
  its end, \<open>pool_create\<close> stores through the pointer \<open>cur\<close> that it has never assigned.
\<close>

theorem pool_create_without_page:
  assumes "4096 < sz" "addr + sz \<le> pool_start A addr + 4096"
  shows "pool_create A addr (int sz) m = Inl UninitFault"
proof -
  have "nat (int addr + int sz) = addr + sz" by (simp add: nat_add_distrib)
  then have "create_pages A (nat (int addr + int sz)) (pool_start A addr) 0 0 m = (0, 0, m)"
    using assms(2) by (subst create_pages.simps) (simp add: PAGE_SIZE_def)
  then show ?thesis using assms(1) unfolding pool_create_def pool_start_def [symmetric] by (simp add: PAGE_SIZE_def)
qed

theorem pool_create_without_page_witness:
  "pool_create host_abi 0x1000 0x1FFF (\<lambda>_. 0) = Inl UninitFault"
  using pool_create_without_page [of "0x1FFF" "0x1000" host_abi "\<lambda>_. 0"] by (simp add: sample_start)

text \<open>
  C29: Sizes that wrap around. The header and the alignment are added without a check: the last 15
  sizes of the address range round to 0 or 8 bytes and index the bucket array at -4 or -1.
\<close>

theorem pool_malloc_wraps:
  assumes "wf A P F lo hi" "modulus A - 15 \<le> sz" "sz < modulus A"
  shows "pool_malloc A sz P = Some (Inl (IndexFault (if sz \<le> modulus A - 8 then - 4 else - 1)))"
proof -
  have M: "4294967296 \<le> modulus A" using assms(1) by (auto simp: wf_def abi_ok_def modulus_def)
  let ?s = "if sz \<le> modulus A - 8 then 0 else 8 :: nat"
  have s: "((sz + HEADER_SIZE) mod modulus A + MEM_ALIGN - 1) mod modulus A div MEM_ALIGN * MEM_ALIGN = ?s"
  proof -
    consider "sz + 8 < modulus A" | "sz + 8 = modulus A" | "modulus A < sz + 8" by linarith
    then show ?thesis
    proof cases
      case 1
      have "sz + 8 + 7 = modulus A + (sz + 15 - modulus A)" "sz + 15 - modulus A < modulus A"
        using assms(2,3) M by auto
      then have "(sz + 8 + 7) mod modulus A = sz + 15 - modulus A" by (metis mod_add_self1 mod_less)
      then show ?thesis using 1 assms(2) by (simp add: HEADER_SIZE_def MEM_ALIGN_def)
    next
      case 2
      then show ?thesis using M by (simp add: HEADER_SIZE_def MEM_ALIGN_def)
    next
      case 3
      then have m: "(sz + 8) mod modulus A = sz + 8 - modulus A" using assms(3) M by (simp add: mod_if)
      have "1 \<le> sz + 8 - modulus A" "sz + 8 - modulus A < 8" using 3 assms(3) by auto
      then have "(sz + 8 - modulus A + 7) mod modulus A div 8 = 1" using M by (intro div_nat_eqI) auto
      moreover have "\<not> sz \<le> modulus A - 8" using 3 M by linarith
      ultimately show ?thesis using m by (simp add: HEADER_SIZE_def MEM_ALIGN_def)
    qed
  qed
  have idx: "small_index ?s = (if sz \<le> modulus A - 8 then - 4 else - 1)"
    by (simp add: small_index_def log_loop.simps)
  have "sz \<noteq> 0" using assms(2) M by auto
  then show ?thesis using top_size [OF assms(1)]
    unfolding pool_malloc_def Let_def s idx by (simp add: BUDY_COUNT_def)
qed

theorem pool_malloc_wraps_witness:
  "\<exists>P. wf host_abi P (pages 0x2000 4) 0x2000 0x6000 \<and>
     pool_malloc host_abi 0xFFFFFFFFFFFFFFFF P = Some (Inl (IndexFault (- 1)))"
proof -
  obtain P where P: "wf host_abi P (pages 0x2000 4) 0x2000 0x6000" using sample_pool by blast
  show ?thesis using pool_malloc_wraps [OF P, of "0xFFFFFFFFFFFFFFFF"] P by (auto simp: host_modulus)
qed

lemma malloc_truncated:
  assumes "wf host_abi P F lo hi"
  shows "pool_malloc host_abi 0xFFFFFFF8 P =
    (case pool_alloc_continues host_abi 8 0 P of
       None \<Rightarrow> None
     | Some (bh, P) \<Rightarrow>
         if bh = 0 then Some (Inr (0, P)) else Some (Inr (bh + 8, upd_blocks (write_header bh 8 0) P)))"
    "pool_malloc host_abi 0x100000001 P =
    (case pool_alloc_continues host_abi 8 1 P of
       None \<Rightarrow> None
     | Some (bh, P) \<Rightarrow>
         if bh = 0 then Some (Inr (0, P)) else Some (Inr (bh + 8, upd_blocks (write_header bh 8 1) P)))"
proof -
  have size: "obj_size (bds P ! (BUDY_COUNT - 1)) = 4096" using top_size [OF assms] by (simp add: BUDY_COUNT_def)
  note defs = host_modulus HEADER_SIZE_def MEM_ALIGN_def
  show "pool_malloc host_abi 0xFFFFFFF8 P =
    (case pool_alloc_continues host_abi 8 0 P of
       None \<Rightarrow> None
     | Some (bh, P) \<Rightarrow>
         if bh = 0 then Some (Inr (0, P)) else Some (Inr (bh + 8, upd_blocks (write_header bh 8 0) P)))"
    by (rule malloc_large_eq [where s = "0x100000000", OF _ _ size]) (simp_all add: defs)
  show "pool_malloc host_abi 0x100000001 P =
    (case pool_alloc_continues host_abi 8 1 P of
       None \<Rightarrow> None
     | Some (bh, P) \<Rightarrow>
         if bh = 0 then Some (Inr (0, P)) else Some (Inr (bh + 8, upd_blocks (write_header bh 8 1) P)))"
    by (rule malloc_large_eq [where s = "0x100000010", OF _ _ size]) (simp_all add: defs)
qed

text \<open>
  C28: Requests of 4 GB. The page mask has 32 bits, so the upper half of a 64-bit size is lost. A
  request of 4 GB and one byte is served with a single page. One of 4 GB less 8 bytes is served
  with no page at all: it returns the first free page and leaves it on the list.
\<close>

theorem pool_malloc_4G:
  assumes "wf host_abi P F lo hi" "pages_from F 1 b"
  shows "\<exists>bh P' F' Q. pool_malloc host_abi 0x100000001 P = Some (Inr (bh + 8, P')) \<and>
    handed_out host_abi P F lo hi bh 8 1 P' F' \<and>
    pool_malloc host_abi 0xFFFFFFF8 P = Some (Inr (first (F 8) + 8, Q)) \<and> bds Q = bds P \<and> first (F 8) \<in> free_bytes F"
proof -
  have lay: "layout F lo hi" using assms(1) by (simp add: wf_def)
  have ex: "\<exists>b. pages_from F 1 b" using assms(2) by blast
  then obtain bh ys zs where r: "pool_alloc_continues host_abi 8 1 P =
      Some (bh, take_n 8 1 (store_slot host_abi 8 (slot_of ys) (first zs) P))"
    "F 8 = ys @ run_of 8 bh 1 @ zs" "pages_from F 1 bh"
    using alloc_continues_ok [OF assms(1), of 1] by (simp only: if_True zero_less_one) blast
  have bh: "bh \<in> set (F 8)" using r(2) by (simp add: run_of_def)
  then have "bh \<noteq> 0" using layout_in [OF lay, of 8 bh] by simp
  then have 1: "pool_malloc host_abi 0x100000001 P = Some (Inr (bh + 8,
      upd_blocks (write_header bh 8 1) (take_n 8 1 (store_slot host_abi 8 (slot_of ys) (first zs) P))))"
    using malloc_truncated(2) [OF assms(1)] r(1) by simp
  have 2: "handed_out host_abi P F lo hi bh 8 1
      (upd_blocks (write_header bh 8 1) (take_n 8 1 (store_slot host_abi 8 (slot_of ys) (first zs) P))) (F(8 := ys @ zs))"
    by (rule hand_out_run [OF assms(1) _ _ r(2) refl]) simp_all
  have "seg (load_ptr host_abi (blocks P)) (free_list (bds P ! 8)) (F 8) 0"
    using wf_bucket [OF assms(1), of 8] by (simp add: bucket_ok_def)
  then have head: "free_list (bds P ! 8) = first (F 8)" by (rule seg_first)
  obtain a r' where a: "F 8 = a # r'" using bh by (cases "F 8") auto
  then have a0: "a \<noteq> 0" "a \<in> free_bytes F"
    using layout_in [OF lay, of 8 a] free_bytes_member [of 8 a F] obj_bytes_ge [of 8] by auto
  have keep: "upd_bucket 8 (\<lambda>b. b\<lparr>free_n := free_n b - of_nat 0\<rparr>) (store_slot host_abi 8 Head a P) = P"
  proof -
    have "(bds P ! 8)\<lparr>free_list := a\<rparr> = bds P ! 8" using head a by (cases "bds P ! 8") simp
    then show ?thesis by (simp add: upd_bucket_def store_slot_def)
  qed
  have "pool_alloc_continues host_abi 8 0 P = Some (a, P)"
    unfolding pool_alloc_continues_def Let_def head a first_simps
    by (subst alloc_scan.simps) (use keep in simp)
  then have "pool_malloc host_abi 0xFFFFFFF8 P = Some (Inr (a + 8, upd_blocks (write_header a 8 0) P))"
    using malloc_truncated(1) [OF assms(1)] a0(1) by simp
  then show ?thesis using 1 2 a a0(2) by auto
qed

theorem pool_malloc_4G_witness:
  "\<exists>P bh P'. pool_malloc host_abi 0x100000001 P = Some (Inr (bh + 8, P')) \<and> header (blocks P') bh 8 1"
proof -
  obtain P where P: "wf host_abi P (pages 0x2000 4) 0x2000 0x6000" using sample_pool by blast
  obtain b where "pages_from (pages 0x2000 4) 1 b" using pages_from_pages [of "0x2000" 4 1] by auto
  from pool_malloc_4G [OF P this] show ?thesis unfolding handed_out_def by auto
qed

end
