(* ===== verification/Rt_Mem.thy ===== *)
theory Rt_Mem
  imports Rt_Stubs Pool_Correct
begin

text \<open>
  The guest's \<open>malloc\<close>, \<open>rtlib/libs/mem.c\<close>: the functions of the pool with the guest's pointers,
  whose text is that of \<open>simulator/api/mem.c\<close> but for unused variables and sizes of type \<open>int\<close>, and
  \<open>mem_init\<close>, \<open>malloc\<close> and \<open>free\<close>, which keep one pool on the heap that \<open>sbrk\<close> provides: its bucket
  array and its blocks are in guest memory, \<open>mem_pool_gs\<close> is the address of the array.
\<close>

section \<open>The pool with the guest's pointers\<close>

definition rt_alloc_continues :: "nat \<Rightarrow> nat \<Rightarrow> pool \<Rightarrow> (nat \<times> pool) option" where
  "rt_alloc_continues = pool_alloc_continues guest_abi"

definition rt_add_free :: "nat \<Rightarrow> nat \<Rightarrow> int \<Rightarrow> pool \<Rightarrow> pool option" where
  "rt_add_free = pool_add_free guest_abi"

definition rt_pull_upper :: "nat \<Rightarrow> pool \<Rightarrow> pool option" where
  "rt_pull_upper = pool_pull_upper guest_abi"

definition rt_try_shrink :: "nat \<Rightarrow> pool \<Rightarrow> pool option" where
  "rt_try_shrink = pool_try_shrink guest_abi"

definition rt_pool_create :: "u32 \<Rightarrow> u32 \<Rightarrow> mem \<Rightarrow> pool option res" where
  "rt_pool_create addr sz m = pool_create guest_abi (unat addr) (sint sz) m"

text \<open>
  The \<open>int\<close> size is compared with and masked by unsigned numbers, so only its bits matter; it is
  shifted as an \<open>int\<close> only where it is at most a page.
\<close>

definition rt_pool_malloc :: "u32 \<Rightarrow> pool \<Rightarrow> (nat \<times> pool) res option" where
  "rt_pool_malloc sz P = pool_malloc guest_abi (unat sz) P"

definition rt_pool_free :: "u32 \<Rightarrow> pool \<Rightarrow> (string \<times> pool) res option" where
  "rt_pool_free addr P = pool_free guest_abi (unat addr) P"

section \<open>The bucket array in guest memory\<close>

text \<open>
  \<open>bucket_t\<close> with the guest's pointers: three words. An operation of the pool works on the array as
  it reads it from memory, and what it leaves is written back. That is what the code does, as long
  as no block of the pool overlaps the array; where the pool is well formed, none does.
\<close>

definition bucket_bytes :: "bucket \<Rightarrow> byte list" where
  "bucket_bytes b = le_bytes 4 (unat (obj_size b)) @ le_bytes 4 (unat (free_n b)) @ le_bytes 4 (free_list b)"

definition parse_bucket :: "byte list \<Rightarrow> bucket" where
  "parse_bucket bs =
     \<lparr>obj_size = of_nat (le_val (take 4 bs)), free_n = of_nat (le_val (take 4 (drop 4 bs))),
      free_list = le_val (take 4 (drop 8 bs))\<rparr>"

definition load_buckets :: "mem \<Rightarrow> nat \<Rightarrow> bucket list" where
  "load_buckets m a = map (\<lambda>i. parse_bucket (load_bytes m (a + 12 * i) 12)) [0..<BUDY_COUNT]"

definition store_buckets :: "nat \<Rightarrow> bucket list \<Rightarrow> mem \<Rightarrow> mem" where
  "store_buckets a bs m = store_bytes m a (concat (map bucket_bytes bs))"

text \<open>The pool whose array is at an address of guest memory, and guest memory with that pool.\<close>

definition pool_at :: "mem \<Rightarrow> nat \<Rightarrow> pool" where
  "pool_at m a = \<lparr>bds = load_buckets m a, blocks = m\<rparr>"

definition put_pool :: "nat \<Rightarrow> pool \<Rightarrow> mem" where
  "put_pool a P = store_buckets a (bds P) (blocks P)"

section \<open>mem_init, malloc and free\<close>

definition set_data :: "mem \<Rightarrow> vm \<Rightarrow> vm" where
  "set_data m v = v\<lparr>mem := (mem v)\<lparr>m_data := m\<rparr>\<rparr>"

text \<open>The pages of a new pool whose first word is outside guest memory.\<close>

definition pages_outside :: "vm \<Rightarrow> pool \<Rightarrow> nat list" where
  "pages_outside v P =
     filter (\<lambda>p. \<not> in_mem v (int p) 4)
       (map (\<lambda>k. free_list (bds P ! (BUDY_COUNT - 1)) + k * PAGE_SIZE) [0..<unat (free_n (bds P ! (BUDY_COUNT - 1)))])"

text \<open>
  \<open>gs\<close> and the first component of the result are \<open>mem_pool_gs\<close>, 0 the null pointer. \<open>pool_create\<close>
  links the pages first and then fills in the bucket array. The caller's argument registers are set
  for the two calls of \<open>sbrk\<close>.
\<close>

definition mem_init :: "u32 \<Rightarrow> u32 \<Rightarrow> 'w host \<Rightarrow> nat \<Rightarrow> vm \<Rightarrow> 'w \<Rightarrow> (u32 \<times> vm \<times> 'w) res" where
  "mem_init gs sz h tid v w =
     res_bind (rt_sbrk h tid (set_gpr 4 0 v) w) (\<lambda>(start, v, w).
     res_bind (rt_sbrk h tid (set_gpr 4 sz v) w) (\<lambda>(top, v, w).
       if top = - 1 then Inr (gs, v, w)
       else
         res_bind (rt_pool_create start sz (m_data (mem v))) (\<lambda>r.
           case r of
             None \<Rightarrow> Inr (0, v, w)
           | Some P \<Rightarrow>
               (case pages_outside v P of
                  p # _ \<Rightarrow> Inl (MemFault (int p))
                | [] \<Rightarrow>
                    if in_mem v (uint start) (bucket_size guest_abi * BUDY_COUNT)
                    then Inr (start, set_data (put_pool (unat start) P) v, w)
                    else Inl (MemFault (uint start))))))"

definition rt_malloc :: "u32 \<Rightarrow> u32 \<Rightarrow> mem \<Rightarrow> (nat \<times> mem) res option" where
  "rt_malloc sz gs m =
     (if gs = 0 then Some (Inr (0, m))
      else and_then (rt_pool_malloc sz (pool_at m (unat gs))) (\<lambda>(a, P). Some (Inr (a, put_pool (unat gs) P))))"

text \<open>With \<open>mem_pool_gs\<close> null, \<open>free\<close> looks at the header before it uses the pool.\<close>

definition rt_free :: "u32 \<Rightarrow> u32 \<Rightarrow> mem \<Rightarrow> (string \<times> mem) res option" where
  "rt_free addr gs m =
     (if gs \<noteq> 0 then
        and_then (rt_pool_free addr (pool_at m (unat gs))) (\<lambda>(s, P). Some (Inr (s, put_pool (unat gs) P)))
      else if unat addr < HEADER_SIZE then Some (Inl NullFault)
      else if load_le m (unat addr - HEADER_SIZE + 4) 4 \<noteq> OBJ_MAGIC
      then Some (Inr (''something wrong ...'', m))
      else if BUDY_COUNT \<le> load_le m (unat addr - HEADER_SIZE) 2
      then Some (Inr (''invalid idx ...'', m))
      else Some (Inl NullFault))"

section \<open>Pools in memory\<close>

lemma length_bucket_bytes [simp]: "length (bucket_bytes b) = 12"
  by (simp add: bucket_bytes_def)

lemma parse_bucket_bytes: "free_list b < 4294967296 \<Longrightarrow> parse_bucket (bucket_bytes b) = b"
proof -
  have m: "unat x mod 4294967296 = unat x" for x :: u32 by simp
  assume "free_list b < 4294967296"
  then show ?thesis by (cases b) (simp add: parse_bucket_def bucket_bytes_def m)
qed

lemma load_store_buckets:
  assumes "length bs = 9" "\<And>b. b \<in> set bs \<Longrightarrow> free_list b < 4294967296"
  shows "load_buckets (store_buckets a bs m) a = bs"
proof (rule nth_equalityI)
  show "length (load_buckets (store_buckets a bs m) a) = length bs"
    using assms(1) by (simp add: load_buckets_def BUDY_COUNT_def)
  fix i
  assume "i < length (load_buckets (store_buckets a bs m) a)"
  then have i: "i < 9" by (simp add: load_buckets_def BUDY_COUNT_def)
  have "length (concat (map bucket_bytes bs)) = 108" using length_concat_map [of bucket_bytes 12 bs] assms(1) by simp
  then have "load_bytes (store_buckets a bs m) (a + 12 * i) 12 = bucket_bytes (bs ! i)"
    using i assms(1) take_drop_concat [of bucket_bytes 12 i bs]
    unfolding store_buckets_def by (subst load_store_bytes_part) simp_all
  moreover have "parse_bucket (bucket_bytes (bs ! i)) = bs ! i"
    using i assms by (intro parse_bucket_bytes) simp
  ultimately show "load_buckets (store_buckets a bs m) a ! i = bs ! i"
    using i by (simp add: load_buckets_def BUDY_COUNT_def del: upt_Suc)
qed

lemma store_buckets_frame:
  "length bs = 9 \<Longrightarrow> same_outside {a ..< a + 108} m (store_buckets a bs m)"
  using length_concat_map [of bucket_bytes 12 bs]
  by (auto simp: same_outside_def store_buckets_def intro!: store_bytes_outside)

lemma load_buckets_same:
  assumes "same_outside S m m'" "S \<inter> {a ..< a + 108} = {}"
  shows "load_buckets m' a = load_buckets m a"
proof -
  have "load_bytes m' (a + 12 * i) 12 = load_bytes m (a + 12 * i) 12" if "i < 9" for i
    using assms that by (intro load_bytes_cong) (fastforce simp: same_outside_def)
  then show ?thesis by (simp add: load_buckets_def BUDY_COUNT_def)
qed

text \<open>A well-formed pool whose array lies in front of its blocks.\<close>

definition heap :: "nat \<Rightarrow> nat \<Rightarrow> nat \<Rightarrow> mem \<Rightarrow> lists \<Rightarrow> bool" where
  "heap a lo hi m F \<longleftrightarrow> 0 < a \<and> a + 108 \<le> lo \<and> wf guest_abi (pool_at m a) F lo hi"

lemma guest_modulus: "modulus guest_abi = 4294967296" "bucket_size guest_abi * BUDY_COUNT = 108"
  by (simp_all add: modulus_def guest_abi_def BUDY_COUNT_def)

lemma wf_block_inside:
  assumes "wf A P F lo hi" "i < 9" "x \<in> set (F i)"
  shows "lo \<le> x" "x + obj_bytes i \<le> hi"
proof -
  have "layout F lo hi" using assms(1) by (simp add: wf_def)
  then show "lo \<le> x" "x + obj_bytes i \<le> hi" using layout_in [of F lo hi i x] assms(2,3) by blast+
qed

lemma wf_bytes_inside: "wf A P F lo hi \<Longrightarrow> free_bytes F \<subseteq> {lo ..< hi}"
  using wf_block_inside by (fastforce simp: free_bytes_def bytes_of_def)

lemma heap_apart: "heap a lo hi m F \<Longrightarrow> free_bytes F \<inter> {a ..< a + 108} = {}"
proof -
  assume "heap a lo hi m F"
  then have "free_bytes F \<subseteq> {lo ..< hi}" "a + 108 \<le> lo"
    using wf_bytes_inside unfolding heap_def by blast+
  then show ?thesis by fastforce
qed

lemma heap_put:
  assumes wf: "wf guest_abi P F lo hi" and a: "0 < a" "a + 108 \<le> lo"
  shows "heap a lo hi (put_pool a P) F" "same_outside {a ..< a + 108} (blocks P) (put_pool a P)"
proof -
  have l: "length (bds P) = 9" and hi: "hi < 4294967296" using wf by (simp_all add: wf_def guest_modulus)
  show frame: "same_outside {a ..< a + 108} (blocks P) (put_pool a P)"
    unfolding put_pool_def by (rule store_buckets_frame [OF l])
  have "free_list b < 4294967296" if b: "b \<in> set (bds P)" for b
  proof -
    obtain i where i: "i < 9" "b = bds P ! i" using b l by (auto simp: in_set_conv_nth)
    have "x < hi" if "x \<in> set (F i)" for x using wf_block_inside [OF wf i(1) that] obj_bytes_ge [of i] by simp
    then show ?thesis using wf_head [OF wf i(1)] i(2) hi by (cases "F i") (auto intro: less_trans)
  qed
  then have "pool_at (put_pool a P) a = upd_blocks (\<lambda>m. put_pool a \<lparr>bds = bds P, blocks = m\<rparr>) P"
    using load_store_buckets [OF l] by (simp add: pool_at_def put_pool_def upd_blocks_def)
  moreover have "wf guest_abi (upd_blocks (\<lambda>m. put_pool a \<lparr>bds = bds P, blocks = m\<rparr>) P) F lo hi"
  proof (rule wf_write [OF wf])
    show "same_outside {a ..< a + 108} m (put_pool a \<lparr>bds = bds P, blocks = m\<rparr>)" for m
      unfolding put_pool_def using store_buckets_frame [OF l] by simp
    show "{a ..< a + 108} \<inter> free_bytes F = {}" using wf_bytes_inside [OF wf] a by fastforce
  qed
  ultimately show "heap a lo hi (put_pool a P) F" using a by (simp add: heap_def)
qed

section \<open>malloc and free are an allocator\<close>

lemma guest_size: "n \<le> max_request \<Longrightarrow> unat (of_nat n :: u32) = n"
  by (simp add: unat_of_nat max_request_def)

lemma rt_malloc_pool:
  assumes "gs \<noteq> 0" "n \<le> max_request" "rt_malloc (of_nat n) gs m = Some (Inr (a, m'))"
  shows "\<exists>P'. pool_malloc guest_abi n (pool_at m (unat gs)) = Some (Inr (a, P')) \<and> m' = put_pool (unat gs) P'"
  using assms guest_size [OF assms(2)]
  by (auto simp: rt_malloc_def rt_pool_malloc_def and_then_def split: option.splits sum.splits)

lemma rt_malloc_block:
  assumes h: "heap (unat gs) lo hi m F" and n: "0 < n \<and> n \<le> max_request"
    and r: "rt_malloc (of_nat n) gs m = Some (Inr (a, m'))" "a \<noteq> 0"
  shows "\<exists>F' R. heap (unat gs) lo hi m' F' \<and> free_bytes F = free_bytes F' \<union> R \<and> free_bytes F' \<inter> R = {} \<and>
    block_of lo hi m' a R \<and> {a ..< a + n} \<subseteq> R \<and>
    same_outside (free_bytes F \<union> {unat gs ..< unat gs + 108}) m m'"
proof -
  have gs: "gs \<noteq> 0" "0 < unat gs" "unat gs + 108 \<le> lo" and wf: "wf guest_abi (pool_at m (unat gs)) F lo hi"
    using h by (auto simp: heap_def)
  obtain P' where P': "pool_malloc guest_abi n (pool_at m (unat gs)) = Some (Inr (a, P'))" "m' = put_pool (unat gs) P'"
    using rt_malloc_pool [OF gs(1) _ r(1)] n by blast
  obtain F' R where F': "wf guest_abi P' F' lo hi" "free_bytes F = free_bytes F' \<union> R" "free_bytes F' \<inter> R = {}"
    "block_of lo hi (blocks P') a R" "{a ..< a + n} \<subseteq> R" "same_outside (free_bytes F) m (blocks P')"
    using malloc_block [OF wf n P'(1) r(2)] by (auto simp: pool_at_def)
  note put = heap_put [OF F'(1) gs(2,3), folded P'(2)]
  have "{unat gs ..< unat gs + 108} \<inter> R = {}" using heap_apart [OF h] F'(2) by blast
  then have "block_of lo hi m' a R" by (intro block_of_frame [OF F'(4) put(2)]) blast
  moreover have "same_outside (free_bytes F \<union> {unat gs ..< unat gs + 108}) m m'"
    by (rule same_outside_trans [OF F'(6) put(2)])
  ultimately show ?thesis using put(1) F'(2,3,5) by blast
qed

lemma rt_free_block:
  assumes h: "heap (unat gs) lo hi m F" and b: "block_of lo hi m a R"
    and sep: "(free_bytes F \<union> {unat gs ..< unat gs + 108}) \<inter> R = {}"
  shows "\<exists>m' F'. rt_free (of_nat a) gs m = Some (Inr ([], m')) \<and> heap (unat gs) lo hi m' F' \<and>
    free_bytes F' = free_bytes F \<union> R \<and> same_outside (free_bytes F \<union> R \<union> {unat gs ..< unat gs + 108}) m m'"
proof -
  have gs: "gs \<noteq> 0" "0 < unat gs" "unat gs + 108 \<le> lo" and wf: "wf guest_abi (pool_at m (unat gs)) F lo hi"
    using h by (auto simp: heap_def)
  have "free_bytes F \<inter> R = {}" "block_of lo hi (blocks (pool_at m (unat gs))) a R"
    using sep b by (auto simp: pool_at_def)
  from free_block [OF wf this(2,1)] obtain P' F' where
    P': "pool_free guest_abi a (pool_at m (unat gs)) = Some (Inr ([], P'))" "wf guest_abi P' F' lo hi"
      "free_bytes F' = free_bytes F \<union> R" "same_outside (free_bytes F \<union> R) m (blocks P')"
    by (auto simp: pool_at_def)
  have "a < 4294967296"
  proof -
    obtain bh i n where "a = bh + 8" "bh + n * obj_bytes i \<le> hi" "0 < n" using b by (auto simp: block_of_def)
    moreover have "bh + 8 \<le> bh + n * obj_bytes i" using header_inside [OF \<open>0 < n\<close>, of bh i] by simp
    moreover have "hi < 4294967296" using wf by (simp add: wf_def guest_modulus)
    ultimately show ?thesis by linarith
  qed
  then have "unat (of_nat a :: u32) = a" by (simp add: unat_of_nat)
  then have "rt_free (of_nat a) gs m = Some (Inr ([], put_pool (unat gs) P'))"
    using gs(1) P'(1) by (simp add: rt_free_def rt_pool_free_def)
  then show ?thesis
    using heap_put [OF P'(2) gs(2,3)] P'(3) same_outside_trans [OF P'(4)] by blast
qed

lemma heap_write:
  assumes "heap a lo hi m F" "\<And>m. same_outside S m (g m)" "S \<inter> (free_bytes F \<union> {a ..< a + 108}) = {}"
  shows "heap a lo hi (g m) F"
proof -
  have "load_buckets (g m) a = load_buckets m a" using assms(3) by (intro load_buckets_same [OF assms(2)]) blast
  then have "pool_at (g m) a = upd_blocks g (pool_at m a)" by (simp add: pool_at_def upd_blocks_def)
  then show ?thesis using assms wf_write [OF _ assms(2), of guest_abi "pool_at m a" F lo hi] by (auto simp: heap_def)
qed

interpretation guest_heap: block_allocator "heap (unat gs) lo hi" free_bytes "{unat gs ..< unat gs + 108}"
    "\<lambda>m. m" "\<lambda>g. g" "\<lambda>n. rt_malloc (of_nat n) gs" "\<lambda>a. rt_free (of_nat a) gs" "block_of lo hi"
    "\<lambda>n. 0 < n \<and> n \<le> max_request"
proof
  show "\<exists>F' R. heap (unat gs) lo hi m' F' \<and> free_bytes F = free_bytes F' \<union> R \<and> free_bytes F' \<inter> R = {} \<and>
      block_of lo hi m' a R \<and> {a ..< a + n} \<subseteq> R \<and> same_outside (free_bytes F \<union> {unat gs ..< unat gs + 108}) m m'"
    if "heap (unat gs) lo hi m F" "0 < n \<and> n \<le> max_request" "rt_malloc (of_nat n) gs m = Some (Inr (a, m'))" "a \<noteq> 0"
    for m F n a m'
    using rt_malloc_block that by blast
  show "\<exists>m' F'. rt_free (of_nat a) gs m = Some (Inr ([], m')) \<and> heap (unat gs) lo hi m' F' \<and>
      free_bytes F' = free_bytes F \<union> R \<and> same_outside (free_bytes F \<union> R \<union> {unat gs ..< unat gs + 108}) m m'"
    if "heap (unat gs) lo hi m F" "block_of lo hi m a R" "(free_bytes F \<union> {unat gs ..< unat gs + 108}) \<inter> R = {}" for m F a R
    using rt_free_block that by blast
  show "heap (unat gs) lo hi (g m) F"
    if "heap (unat gs) lo hi m F" "\<And>m. same_outside S m (g m)" "S \<inter> (free_bytes F \<union> {unat gs ..< unat gs + 108}) = {}"
    for m F S g
    using heap_write that by blast
qed (simp_all add: heap_apart block_of_frame)

section \<open>The heap of a guest\<close>

lemma guest_sbrk:
  assumes "8589934592 \<le> uint (m_end (mem v))" "uint (m_end (mem v)) < 9223372036854775808"
    and "uint (m_brk (mem v)) \<le> 4294967296"
  shows "rt_sbrk h tid (set_gpr 4 x v) w =
    Inr (ucast (m_brk (mem v)),
      abi_func_set_return (set_brk (m_brk (mem v) + ucast x) (set_gpr 4 x v)) (ucast (m_brk (mem v))), w)"
proof -
  have "rt_sbrk h tid u w = served_by cpu0_sbrk h tid u w" for u
    by (simp add: rt_sbrk_def api_guest_defs ssc_call call_api_numbers)
  then show ?thesis
    using sbrk_accepts [of "set_gpr 4 x v" h tid w] assms
    by (simp add: served_by_def frame_simps abi_func_set_return_def)
qed

text \<open>The machine after both calls of \<open>sbrk\<close>.\<close>

definition after_sbrk :: "u32 \<Rightarrow> vm \<Rightarrow> vm" where
  "after_sbrk sz v =
     (let b = m_brk (mem v); v = abi_func_set_return (set_brk b (set_gpr 4 0 v)) (ucast b)
      in abi_func_set_return (set_brk (b + ucast sz) (set_gpr 4 sz v)) (ucast b))"

lemma after_sbrk_frame [simp]:
  "m_data (mem (after_sbrk sz v)) = m_data (mem v)" "m_brk (mem (after_sbrk sz v)) = m_brk (mem v) + ucast sz"
  "m_start (mem (after_sbrk sz v)) = m_start (mem v)" "m_end (mem (after_sbrk sz v)) = m_end (mem v)"
  by (simp_all add: after_sbrk_def Let_def abi_func_set_return_def frame_simps)

lemma mem_init_eq:
  assumes "8589934592 \<le> uint (m_end (mem v))" "uint (m_end (mem v)) < 9223372036854775808"
    and "uint (m_brk (mem v)) \<le> 4294967296"
  shows "mem_init gs sz h tid v w =
    (if (ucast (m_brk (mem v)) :: u32) = - 1 then Inr (gs, after_sbrk sz v, w)
     else
       res_bind (rt_pool_create (ucast (m_brk (mem v))) sz (m_data (mem v))) (\<lambda>r.
         case r of
           None \<Rightarrow> Inr (0, after_sbrk sz v, w)
         | Some P \<Rightarrow>
             (case pages_outside (after_sbrk sz v) P of
                p # _ \<Rightarrow> Inl (MemFault (int p))
              | [] \<Rightarrow>
                  if in_mem (after_sbrk sz v) (uint (ucast (m_brk (mem v)) :: u32)) (bucket_size guest_abi * BUDY_COUNT)
                  then Inr (ucast (m_brk (mem v)), set_data (put_pool (unat (ucast (m_brk (mem v)) :: u32)) P) (after_sbrk sz v), w)
                  else Inl (MemFault (uint (ucast (m_brk (mem v)) :: u32))))))"
proof -
  let ?b = "m_brk (mem v)"
  let ?v = "abi_func_set_return (set_brk ?b (set_gpr 4 0 v)) (ucast ?b)"
  have 1: "rt_sbrk h tid (set_gpr 4 0 v) w = Inr (ucast ?b, ?v, w)"
    using guest_sbrk [OF assms, of h tid 0 w] by simp
  have "mem ?v = (mem v)\<lparr>m_brk := ?b\<rparr>" by (simp add: abi_func_set_return_def frame_simps set_brk_def)
  then have 2: "rt_sbrk h tid (set_gpr 4 sz ?v) w = Inr (ucast ?b, after_sbrk sz v, w)"
    using guest_sbrk [of ?v h tid sz w] assms by (simp add: after_sbrk_def Let_def)
  show ?thesis unfolding mem_init_def 1 res_bind.simps prod.case 2 by (simp only: after_sbrk_frame)
qed

lemma new_pool_pages:
  assumes "wf A P (pages s k) s (s + k * 4096)"
  shows "pages_outside v P = filter (\<lambda>p. \<not> in_mem v (int p) 4) (run_of 8 s k)"
proof -
  have "seg (load_ptr A (blocks P)) (free_list (bds P ! 8)) (pages s k 8) 0"
    using wf_bucket [OF assms, of 8] by (simp add: bucket_ok_def)
  then have "free_list (bds P ! 8) = first (run_of 8 s k)" by (auto simp: pages_def dest: seg_first)
  moreover have "unat (free_n (bds P ! 8)) = k" using wf_free_n(1) [OF assms, of 8] by (simp add: pages_def)
  moreover have "first (run_of 8 s k) = s" if "k \<noteq> 0" using that by (cases k) (simp_all add: run_of_Suc)
  ultimately show ?thesis
    by (cases "k = 0") (simp_all add: pages_outside_def BUDY_COUNT_def PAGE_SIZE_def run_of_def page_bytes)
qed

lemma guest_numbers:
  assumes "B = unat (m_brk (mem v))" "B + unat (sz :: u32) < 2147483648"
  shows "unat (ucast (m_brk (mem v)) :: u32) = B" "(ucast (m_brk (mem v)) :: u32) \<noteq> - 1" "sint sz = int (unat sz)"
proof -
  show b: "unat (ucast (m_brk (mem v)) :: u32) = B" using assms unat_ucast_small [of "m_brk (mem v)"] by simp
  show "(ucast (m_brk (mem v)) :: u32) \<noteq> - 1"
  proof
    assume "(ucast (m_brk (mem v)) :: u32) = - 1"
    then have "B = unat (- 1 :: u32)" using b by metis
    moreover have "(- 1 :: u32) = 0xFFFFFFFF" by simp
    then have "unat (- 1 :: u32) = 4294967295" by (simp only:) simp
    ultimately show False using assms(2) by simp
  qed
  show "sint sz = int (unat sz)" using assms(2) by (intro sint_small) simp
qed

lemma mem_init_heap:
  assumes "8589934592 \<le> uint (m_end (mem v))" "uint (m_end (mem v)) < 9223372036854775808"
    and B: "B = unat (m_brk (mem v))" "0 < B" "4096 < unat sz" "B + unat sz \<le> vm_size v" "vm_size v < 2147483648"
    and room: "pool_start guest_abi B + 4096 < B + unat sz"
  shows "\<exists>gs' v' F lo hi. mem_init gs sz h tid v w = Inr (gs', v', w) \<and> unat gs' = B \<and>
    heap B lo hi (m_data (mem v')) F \<and> free_bytes F = {lo ..< hi} \<and>
    lo < B + 108 + 4096 \<and> hi < B + unat sz \<and> B + unat sz \<le> hi + 4096 \<and> unat (m_brk (mem v')) = B + unat sz \<and>
    same_outside ({B ..< B + 108} \<union> {lo ..< hi}) (m_data (mem v)) (m_data (mem v'))"
proof -
  let ?s = "pool_start guest_abi B" and ?k = "page_count (B + unat sz) (pool_start guest_abi B)"
  have less: "B + unat sz < 2147483648" using B by linarith
  note num = guest_numbers [OF B(1) less]
  have "int B = uint (m_brk (mem v))" using B(1) by simp
  then have "uint (m_brk (mem v)) \<le> 4294967296" using less by linarith
  note eq = mem_init_eq [OF assms(1,2) this, of gs sz h tid w]
  have "\<exists>P. pool_create guest_abi B (int (unat sz)) (m_data (mem v)) = Inr (Some P) \<and>
    wf guest_abi P (pages ?s ?k) ?s (?s + ?k * 4096) \<and> same_outside {?s ..< ?s + ?k * 4096} (m_data (mem v)) (blocks P)"
    by (rule create_pool) (use B less room in \<open>simp_all add: guest_modulus\<close>)
  then obtain P where P: "pool_create guest_abi B (int (unat sz)) (m_data (mem v)) = Inr (Some P)"
    "wf guest_abi P (pages ?s ?k) ?s (?s + ?k * 4096)" "same_outside {?s ..< ?s + ?k * 4096} (m_data (mem v)) (blocks P)" by blast
  have hi: "?s + ?k * 4096 < B + unat sz" using page_count_bound [of ?s "B + unat sz"] room by simp
  have lo: "B + 108 \<le> ?s" using pool_start_above [of B guest_abi] less by (simp add: guest_modulus)
  have near: "?s < B + 108 + 4096" "B + unat sz \<le> ?s + ?k * 4096 + 4096"
    using pool_start_near(2) [of B guest_abi] page_count_reach [of "B + unat sz" ?s] less by (simp_all add: guest_modulus)
  have size: "vm_size (after_sbrk sz v) = vm_size v" by (simp add: vm_size_def)
  have "in_mem (after_sbrk sz v) (int p) 4" if p: "p \<in> set (run_of 8 ?s ?k)" for p
  proof -
    have "p + 4 \<le> vm_size v" using run_of_inside(2) [OF p] hi B(4) by (simp add: page_bytes)
    then show ?thesis by (simp add: in_mem_int size)
  qed
  then have out: "pages_outside (after_sbrk sz v) P = []" using new_pool_pages [OF P(2)] by simp
  have "uint (ucast (m_brk (mem v)) :: u32) = int B" using num(1) by (metis uint_nat)
  moreover have "B + 108 \<le> vm_size v" using lo hi B(4) by linarith
  ultimately have arr: "in_mem (after_sbrk sz v) (uint (ucast (m_brk (mem v)) :: u32)) (bucket_size guest_abi * BUDY_COUNT)"
    by (simp only: in_mem_int guest_modulus size)
  define v' where "v' = set_data (put_pool B P) (after_sbrk sz v)"
  have r: "mem_init gs sz h tid v w = Inr (ucast (m_brk (mem v)), v', w)"
    using eq P(1) out num arr by (simp add: rt_pool_create_def v'_def)
  have "unat (m_brk (mem v) + ucast sz) = B + unat sz" using B(1) less by (subst unat_add_lem [THEN iffD1]) simp_all
  then have brk: "unat (m_brk (mem v')) = B + unat sz" by (simp add: v'_def set_data_def)
  have data: "put_pool B P = m_data (mem v')" by (simp add: v'_def set_data_def)
  note put = heap_put [OF P(2) B(2) lo]
  have "same_outside ({B ..< B + 108} \<union> {?s ..< ?s + ?k * 4096}) (m_data (mem v)) (put_pool B P)"
    using same_outside_trans [OF P(3) put(2)] by (simp add: Un_commute)
  then show ?thesis using r num(1) put(1) free_bytes_pages [of ?s ?k] hi brk near unfolding data by blast
qed

text \<open>
  C15: The guest's heap. On a machine at a usual host address whose guest memory has room for it,
  \<open>mem_init\<close> reserves the bytes above the break with \<open>sbrk\<close> and builds a well-formed pool in them:
  \<open>mem_pool_gs\<close> is the old break, the bucket array is there in guest memory, the free bytes lie
  between the array and the new break with less than a page in front of them and at most a page
  behind them, and no other byte changes.
\<close>

theorem mem_init_builds_heap:
  assumes "8589934592 \<le> uint (m_end (mem v))" "uint (m_end (mem v)) < 9223372036854775808"
    and "B = unat (m_brk (mem v))" "0 < B" "4096 < unat sz" "B + unat sz \<le> vm_size v" "vm_size v < 2147483648"
    and "pool_start guest_abi B + 4096 < B + unat sz"
  shows "\<exists>gs' v' F lo hi. mem_init gs sz h tid v w = Inr (gs', v', w) \<and> unat gs' = B \<and>
    wf guest_abi \<lparr>bds = load_buckets (m_data (mem v')) B, blocks = m_data (mem v')\<rparr> F lo hi \<and>
    free_bytes F = {lo ..< hi} \<and> B + 108 \<le> lo \<and> lo < B + 108 + 4096 \<and>
    hi < B + unat sz \<and> B + unat sz \<le> hi + 4096 \<and> unat (m_brk (mem v')) = B + unat sz \<and>
    same_outside ({B ..< B + 108} \<union> {lo ..< hi}) (m_data (mem v)) (m_data (mem v'))"
  using mem_init_heap [OF assms, of gs h tid w] unfolding heap_def pool_at_def by blast

text \<open>A machine with 64 KB of guest memory and its break at 4 KB.\<close>

definition small_heap :: vm where
  "small_heap = (vm_regs [])\<lparr>mem :=
     \<lparr>m_start = 0x7F0000000000, m_end = 0x7F0000010000, m_brk = 0x1000, m_data = (\<lambda>_. 0)\<rparr>\<rparr>"

lemma small_heap_simps [simp]:
  "m_end (mem small_heap) = 0x7F0000010000" "m_brk (mem small_heap) = 0x1000"
  "vm_size small_heap = 0x10000" "m_data (mem small_heap) = (\<lambda>_. 0)"
  by (simp_all add: small_heap_def vm_size_def)

lemma guest_sample_start: "pool_start guest_abi 0x1000 = 0x2000"
  by (simp add: pool_start_def page_round_def guest_abi_def BUDY_COUNT_def PAGE_SIZE_def modulus_def)

theorem mem_init_builds_heap_witness:
  "\<exists>gs' v' F lo hi. mem_init 0 0x8000 sample_host 0 small_heap () = Inr (gs', v', ()) \<and> unat gs' = 0x1000 \<and>
     wf guest_abi \<lparr>bds = load_buckets (m_data (mem v')) 0x1000, blocks = m_data (mem v')\<rparr> F lo hi \<and>
     free_bytes F = {lo ..< hi} \<and> 0x106C \<le> lo \<and> hi < 0x9000"
  using mem_init_builds_heap [of small_heap "0x1000" "0x8000" 0 sample_host 0 "()"]
  by (simp add: guest_sample_start) blast

text \<open>
  C6: A program on the guest's heap. After a \<open>mem_init\<close> that has room, two blocks from \<open>malloc\<close> do
  not overlap and lie between the old and the new break; whatever is written into them, \<open>free\<close> takes
  both back without complaint, and then exactly the bytes that were free before are free again.
  All three functions find the pool through \<open>mem_pool_gs\<close>, in guest memory.
\<close>

theorem guest_heap_two_blocks:
  assumes "8589934592 \<le> uint (m_end (mem v))" "uint (m_end (mem v)) < 9223372036854775808"
    and "B = unat (m_brk (mem v))" "0 < B" "4096 < unat sz" "B + unat sz \<le> vm_size v" "vm_size v < 2147483648"
    and "pool_start guest_abi B + 4096 < B + unat sz"
    and init: "mem_init gs0 sz h tid v w = Inr (gs, v', w')"
    and n: "0 < n" "n \<le> max_request" "0 < k" "k \<le> max_request"
    and a: "rt_malloc (of_nat n) gs (m_data (mem v')) = Some (Inr (a, m1))" "a \<noteq> 0"
    and b: "rt_malloc (of_nat k) gs m1 = Some (Inr (b, m2))" "b \<noteq> 0"
    and g: "\<And>m. same_outside ({a ..< a + n} \<union> {b ..< b + k}) m (g m)"
  shows "{a ..< a + n} \<inter> {b ..< b + k} = {} \<and> {a ..< a + n} \<union> {b ..< b + k} \<subseteq> {B + 108 ..< B + unat sz} \<and>
    (\<exists>m3 m4 F F4 lo hi. rt_free (of_nat a) gs (g m2) = Some (Inr ([], m3)) \<and>
       rt_free (of_nat b) gs m3 = Some (Inr ([], m4)) \<and>
       wf guest_abi \<lparr>bds = load_buckets (m_data (mem v')) B, blocks = m_data (mem v')\<rparr> F lo hi \<and>
       wf guest_abi \<lparr>bds = load_buckets m4 B, blocks = m4\<rparr> F4 lo hi \<and> free_bytes F4 = free_bytes F)"
proof -
  obtain F lo hi where h: "unat gs = B" "heap B lo hi (m_data (mem v')) F" "hi < B + unat sz"
    using mem_init_heap [OF assms(1-8), of gs0 h tid w] init by auto
  then have inv: "heap (unat gs) lo hi (m_data (mem v')) F" and lo: "B + 108 \<le> lo" by (simp_all add: heap_def)
  from rt_malloc_block [OF inv _ a] n obtain F1 where
    A: "heap (unat gs) lo hi m1 F1" "{a ..< a + n} \<subseteq> free_bytes F" by blast
  from rt_malloc_block [OF A(1) _ b] n obtain F2 where B: "{b ..< b + k} \<subseteq> free_bytes F1" by blast
  have "free_bytes F \<subseteq> {lo ..< hi}" "free_bytes F1 \<subseteq> {lo ..< hi}"
    using inv A(1) wf_bytes_inside unfolding heap_def by blast+
  then have "{a ..< a + n} \<union> {b ..< b + k} \<subseteq> {lo ..< hi}" using A(2) B by blast
  also have "\<dots> \<subseteq> {B + 108 ..< B + unat sz}" using lo h(3) by auto
  finally have inside: "{a ..< a + n} \<union> {b ..< b + k} \<subseteq> {B + 108 ..< B + unat sz}" .
  have two: "{a ..< a + n} \<inter> {b ..< b + k} = {} \<and>
    (\<exists>m3 m4 F4. rt_free (of_nat a) gs (g m2) = Some (Inr ([], m3)) \<and> rt_free (of_nat b) gs m3 = Some (Inr ([], m4)) \<and>
       heap (unat gs) lo hi m4 F4 \<and> free_bytes F4 = free_bytes F)"
    by (rule guest_heap.two_blocks [OF inv _ _ a b g]) (use n in simp_all)
  then obtain m3 m4 F4 where m: "rt_free (of_nat a) gs (g m2) = Some (Inr ([], m3))"
    "rt_free (of_nat b) gs m3 = Some (Inr ([], m4))" "heap (unat gs) lo hi m4 F4" "free_bytes F4 = free_bytes F" by blast
  have "wf guest_abi \<lparr>bds = load_buckets (m_data (mem v')) B, blocks = m_data (mem v')\<rparr> F lo hi"
    "wf guest_abi \<lparr>bds = load_buckets m4 B, blocks = m4\<rparr> F4 lo hi"
    using h(2) m(3) unfolding heap_def pool_at_def h(1) by blast+
  then show ?thesis using two inside m by blast
qed

text \<open>A request of one byte from a heap that is not empty gets a block of the smallest size.\<close>

lemma one_byte:
  assumes h: "heap (unat gs) lo hi m F" and ne: "free_bytes F \<noteq> {}"
  shows "\<exists>a m' F'. rt_malloc 1 gs m = Some (Inr (a, m')) \<and> a \<noteq> 0 \<and> heap (unat gs) lo hi m' F' \<and>
    free_bytes F \<subseteq> free_bytes F' \<union> {a - 8 ..< a + 8}"
proof -
  have gs: "gs \<noteq> 0" "0 < unat gs" "unat gs + 108 \<le> lo" and wf: "wf guest_abi (pool_at m (unat gs)) F lo hi"
    using h by (auto simp: heap_def)
  obtain j where j: "j < 9" "F j \<noteq> []" using ne unfolding free_bytes_def bytes_of_def by fastforce
  from malloc_small [OF wf, of 1] obtain i where i: "best_bucket 9 i"
    "if \<forall>j. i \<le> j \<and> j < 9 \<longrightarrow> F j = [] then pool_malloc guest_abi 1 (pool_at m (unat gs)) = Some (Inr (0, pool_at m (unat gs)))
     else \<exists>bh P' F'. pool_malloc guest_abi 1 (pool_at m (unat gs)) = Some (Inr (bh + 8, P')) \<and>
       handed_out guest_abi (pool_at m (unat gs)) F lo hi bh i 1 P' F'" by auto
  have 0: "i = 0" using i(1) obj_bytes_ge [of 0] unfolding best_bucket_def by fastforce
  then obtain bh P' F' where P': "pool_malloc guest_abi 1 (pool_at m (unat gs)) = Some (Inr (bh + 8, P'))"
    "handed_out guest_abi (pool_at m (unat gs)) F lo hi bh 0 1 P' F'"
    using i(2) j by (auto split: if_splits)
  have "rt_malloc 1 gs m = Some (Inr (bh + 8, put_pool (unat gs) P'))"
    using gs(1) P'(1) by (simp add: rt_malloc_def rt_pool_malloc_def)
  moreover have "heap (unat gs) lo hi (put_pool (unat gs) P') F'"
    using P'(2) by (intro heap_put(1) gs) (simp add: handed_out_def)
  moreover have "free_bytes F \<subseteq> free_bytes F' \<union> {bh + 8 - 8 ..< bh + 8 + 8}"
    using P'(2) by (auto simp: handed_out_def obj_bytes_def OBJ_MIN_def)
  ultimately show ?thesis by (metis Zero_not_Suc add_eq_0_iff_both_eq_0 numeral_eq_Suc)
qed

theorem guest_heap_two_blocks_witness:
  "\<exists>gs v' a m1 b m2 m3 m4. mem_init 0 0x8000 sample_host 0 small_heap () = Inr (gs, v', ()) \<and>
     rt_malloc 1 gs (m_data (mem v')) = Some (Inr (a, m1)) \<and> rt_malloc 1 gs m1 = Some (Inr (b, m2)) \<and> a \<noteq> b \<and>
     rt_free (of_nat a) gs m2 = Some (Inr ([], m3)) \<and> rt_free (of_nat b) gs m3 = Some (Inr ([], m4))"
proof -
  have "\<exists>gs v' F lo hi. mem_init 0 0x8000 sample_host 0 small_heap () = Inr (gs, v', ()) \<and> unat gs = 0x1000 \<and>
    heap 0x1000 lo hi (m_data (mem v')) F \<and> free_bytes F = {lo ..< hi} \<and>
    lo < 0x206C \<and> 0x8000 \<le> hi"
    using mem_init_heap [of small_heap "0x1000" "0x8000" 0 sample_host 0 "()"] by (simp add: guest_sample_start) blast
  then obtain gs v' F lo hi where i: "mem_init 0 0x8000 sample_host 0 small_heap () = Inr (gs, v', ())"
    and h: "heap (unat gs) lo hi (m_data (mem v')) F" and f: "free_bytes F = {lo ..< hi}" "lo < 0x206C" "0x8000 \<le> hi"
    by metis
  from one_byte [OF h] f obtain a m1 F1 where a: "rt_malloc 1 gs (m_data (mem v')) = Some (Inr (a, m1))" "a \<noteq> 0"
    "heap (unat gs) lo hi m1 F1" "free_bytes F \<subseteq> free_bytes F1 \<union> {a - 8 ..< a + 8}" by fastforce
  have "free_bytes F1 \<noteq> {}"
  proof
    assume "free_bytes F1 = {}"
    then have "{lo ..< hi} \<subseteq> {a - 8 ..< a + 8}" using a(4) f(1) by simp
    then have "hi - lo \<le> 16" using card_mono [of "{a - 8 ..< a + 8}" "{lo ..< hi}"] by simp
    then show False using f(2,3) by linarith
  qed
  from one_byte [OF a(3) this] obtain b m2 where b: "rt_malloc 1 gs m1 = Some (Inr (b, m2))" "b \<noteq> 0" by blast
  from guest_heap_two_blocks [of small_heap "0x1000" "0x8000" 0 sample_host 0 "()" gs v' "()" 1 1 a m1 b m2 "\<lambda>m. m"]
  have "{a ..< a + 1} \<inter> {b ..< b + 1} = {} \<and>
    (\<exists>m3 m4. rt_free (of_nat a) gs m2 = Some (Inr ([], m3)) \<and> rt_free (of_nat b) gs m3 = Some (Inr ([], m4)))"
    using i a(1,2) b same_outside_refl by (simp add: guest_sample_start max_request_def) blast
  moreover from this have "a \<noteq> b" by auto
  ultimately show ?thesis using i a(1) b(1) by blast
qed



end
