(* ===== verification/Spec2Isabelle.thy ===== *)
theory Spec2Isabelle
  imports Md5_Correct Rt_Api Rt_Stubs Vm_Create Rt_Mem
begin

text \<open>
  CVM is a virtual machine for a 32-bit RISC (Cpu0-like) processor. The simulator (\<open>simulator/\<close>)
  loads an ELF program into a block of host memory, interprets its instructions and serves its
  system calls; the guest library (\<open>rtlib/libs/\<close>) wraps the system calls and adds a memory pool;
  the guest program \<open>vapps/md5.c\<close> is the application shipped with it.

  \<^bold>\<open>How the parts interact.\<close> \<open>sim.c\<close> creates a machine (\<open>vm_create\<close>), which opens the program and
  hands the descriptor to the loader (\<open>load_elf\<close>), resolves guest functions by name (\<open>elf_resolve\<close>),
  sets up the main thread and its parameters (\<open>vm_thread_init\<close>, \<open>vm_push_param\<close>) and starts the
  interpreter (\<open>run_loop\<close>). An instruction SSC calls the host function of its number through
  \<open>api_func\<close>; that function reads its parameters with \<open>abi_func_param_n\<close> from the guest's registers
  and stack, calls the operating system and stores its result in register 3, where the stub of
  the guest library finds it. The guest's \<open>mem_init\<close> takes its heap from \<open>sbrk\<close> that way.

  \<^bold>\<open>Theories and the code they model.\<close>
  \<^item> \<open>Prelude\<close>: integer types (\<open>base.h\<close>), results that may be undefined (\<open>fault\<close>, \<open>res\<close>),
    byte memory with little-endian access, word lemmas.
  \<^item> \<open>Machine\<close>: \<open>cpu.h\<close>, \<open>vm.h\<close> and the calling convention of \<open>vm.c\<close>; the record \<open>host\<close> of the C
    library and operating system calls, a parameter of everything that uses it.
  \<^item> \<open>Inst\<close>: \<open>inst.h\<close>, opcodes and decoding. \<open>Cpu\<close>: \<open>cpu.c\<close>, one definition per case of the switch
    (\<open>exec_LD\<close>, ...), the switch (\<open>switch_table\<close>, \<open>exec_inst\<close>), a turn of the loop (\<open>step\<close>), the loop
    (\<open>run_from\<close>, \<open>run_loop\<close>) and the relation \<open>cpu_step\<close> between turns.
  \<^item> \<open>Api_Brk\<close>, \<open>Api_File\<close>, \<open>Api_Printf\<close>, \<open>Api\<close>: \<open>api/brk.c\<close>, \<open>std.c\<close>, \<open>file.c\<close>, \<open>printf.c\<close>, \<open>api.c\<close>, \<open>api.h\<close>.
  \<^item> \<open>Elf\<close>: \<open>elf_load.c\<close>. \<open>Vm\<close>: creation, threads and start of \<open>vm.c\<close>, and \<open>sim.c\<close>.
  \<^item> \<open>Rt_Api\<close>, \<open>Rt_Stubs\<close>: the inline functions and the system call stubs of \<open>rtlib/libs/\<close>.
  \<^item> \<open>Pool\<close>: \<open>api/mem.c\<close>, the pool of nine block sizes, for either pointer width; \<open>Rt_Mem\<close>:
    \<open>rtlib/libs/mem.c\<close>, its copy for 32-bit pointers with \<open>mem_init\<close>, \<open>malloc\<close> and \<open>free\<close>, whose
    bucket array and blocks are both in guest memory.
  \<^item> \<open>Md5\<close>: \<open>vapps/md5.c\<close> and \<open>md5.h\<close>; \<open>Md5_Spec\<close>: MD5 as RFC 1321 defines it.

  \<^bold>\<open>What the lemmas show.\<close>
  \<^item> \<open>Cpu_Compare\<close>, \<open>Cpu_Arith\<close>, \<open>Cpu_Access\<close>: decoding inverts assembling; every class of
    instruction against its arithmetic or memory meaning, faults included.
  \<^item> \<open>Cpu_Run\<close>: what every handler and host call leaves alone, carried to runs of any length by the
    locale \<open>kept_by_turns\<close>; the loop and its finite runs \<open>run_n\<close>; a machine-code loop proved correct.
  \<^item> \<open>Api_Correct\<close>, \<open>Rt_Stubs\<close>: break, files, parameters and output; the two ends of every call.
  \<^item> \<open>Vm_Correct\<close>, \<open>Elf_Correct\<close>: stacks, parameters, symbol lookup, segments. \<open>Elf_File\<close>: a host that
    serves the bytes of a file (\<open>serves\<close>), the tables and segments of the file, what the loader makes
    of them, the files it accepts (\<open>valid_program\<close>), and an ELF file that loads. \<open>Vm_Create\<close>: the
    machine that \<open>vm_create\<close> returns as a function of the file, and the files it accepts.
  \<^item> \<open>Free_List\<close>: linked lists in memory over the interface \<open>link_store\<close>. \<open>Pool_Rep\<close>: the lists of
    free blocks that a pool represents (\<open>wf\<close>). \<open>Pool_Ops\<close>, \<open>Pool_Moves\<close>, \<open>Pool_Create\<close>, \<open>Pool_Alloc\<close>,
    \<open>Pool_Large\<close>: cutting and inserting runs, splitting and merging, creation, small and large
    requests. \<open>Pool_Correct\<close>: the interface \<open>block_allocator\<close>, its lemmas for clients, and the
    interpretation that discharges its laws for the pool. \<open>Rt_Mem\<close> interprets it a second time, for
    the guest's \<open>malloc\<close> and \<open>free\<close> on the heap that \<open>mem_init\<close> builds in guest memory.
  \<^item> \<open>Md5_Correct\<close>: the unrolled transformation is the loop of RFC 1321; the streaming context
    refines the list of bytes hashed so far (interface \<open>streaming_hash\<close>).

  \<^bold>\<open>Modelling conventions.\<close> An operation whose C text can be undefined returns \<open>fault + result\<close>.
  The interpreter does not check the address of a load or a store of the guest; one outside the
  block that \<open>malloc\<close> returned is undefined in C, and the model's \<open>mem_read\<close> and \<open>mem_write\<close> return a
  fault there. That is the end of what the model says of such a run, not a claim that the program
  stops: no theorem states that bytes outside the block are safe.
  Loops that may not end are \<open>partial_function (option)\<close>, so \<open>None\<close> is divergence and nothing else:
  the interpreter, the block loop of \<open>MD5Update\<close>, and the walks over free lists, which end on every
  well-formed pool (\<open>find_place_seg\<close>, \<open>alloc_scan_ok\<close>, \<open>shrink_loop_ok\<close>). \<open>run_n\<close> is the outcome of
  the first turns of the interpreter's loop, a notion of the proofs; \<open>loop_is_its_turns\<close> relates it
  to the loop. All other recursions have termination proofs. The pool's theorems assume regions of at most 32 GB below
  the top of the address space, so that the 32-bit counters of free blocks cannot wrap.

  \<^bold>\<open>Not modelled.\<close> The files of \<open>api/plats/\<close>: \<open>linux.c\<close> is a fragment that does not compile, the
  others are empty. \<open>pool_info\<close>, which only prints. The operating system and C library, which are
  the record \<open>host\<close>; the compiler's passage of arguments into registers and of results through
  local variables in the guest's stubs. The bucket array of a pool on the host is a component of its
  own; that of the guest is read from guest memory by every operation and written back at its end,
  which is what the code does where no block overlaps the array, as in every well-formed pool.
  \<open>memcpy\<close> copies between two separate objects, as in all its calls in \<open>md5.c\<close>. \<open>free\<close> of memory in
  the host has no effect.
\<close>

end
